theory Spec2Isabelle
  imports Complex_Main
begin

section \<open>Python strings\<close>

text \<open>
  Python's \<^verbatim>\<open>s.startswith(p)\<close> and the substring test \<^verbatim>\<open>sub in s\<close>, on
  strings as character lists. The slice \<^verbatim>\<open>s[n:]\<close> is \<open>drop n s\<close>.
\<close>

fun startswith :: "string \<Rightarrow> string \<Rightarrow> bool" where
  "startswith s [] = True"
| "startswith [] (p # ps) = False"
| "startswith (c # cs) (p # ps) = (c = p \<and> startswith cs ps)"

fun py_in :: "string \<Rightarrow> string \<Rightarrow> bool" where
  "py_in sub [] = (sub = [])"
| "py_in sub (c # cs) = (startswith (c # cs) sub \<or> py_in sub cs)"

definition tab :: string where
  "tab = [CHR 0x09]"

definition nl :: string where
  "nl = [CHR 0x0A]"

section \<open>The model: variables, constraints, slack variables\<close>

text \<open>
  The part of a Pyomo block that \<^verbatim>\<open>mis.py\<close> reads and writes. A variable has a
  fully qualified name, a value (\<open>None\<close> when it was never set), the \<^verbatim>\<open>fixed\<close> flag,
  the two entries of \<^verbatim>\<open>v.bounds\<close> and a domain. Names are relative to the block
  itself, as they are in its clone.
\<close>

datatype domain = Reals | Restricted string

record var =
  var_name :: string
  var_value :: "real option"
  var_fixed :: bool
  var_lb :: "real option"
  var_ub :: "real option"
  var_domain :: domain

text \<open>
  A constraint is known by the path of its parent block (empty at the root) and its
  local name; \<^verbatim>\<open>c.name\<close> is computed from the two, joined by a dot. Pyomo puts a
  local name that is not an identifier (one with a dot in it, say) in quotes when it
  renders \<^verbatim>\<open>c.name\<close>; the quotes are left out here. \<^verbatim>\<open>mis.py\<close> only looks for
  substrings in the name, looks components up by it and prints it, and prints the local
  name, which has no quotes, for a bound. The expression of a constraint is the triple
  \<^verbatim>\<open>(lower, body, upper)\<close>; the body is kept as text, since no function of
  \<^verbatim>\<open>mis.py\<close> looks into it.
\<close>

type_synonym cid = "string \<times> string"

definition cid_name :: "cid \<Rightarrow> string" where
  "cid_name i = (if fst i = [] then snd i else fst i @ ''.'' @ snd i)"

definition cid_local_name :: "cid \<Rightarrow> string" where
  "cid_local_name i = snd i"

record constr =
  con_block :: string
  con_local_name :: string
  con_lower :: "real option"
  con_body :: string
  con_upper :: "real option"
  con_equality :: bool
  con_active :: bool

definition con_id :: "constr \<Rightarrow> cid" where
  "con_id c = (con_block c, con_local_name c)"

definition con_name :: "constr \<Rightarrow> string" where
  "con_name c = cid_name (con_id c)"

text \<open>
  The variables of the block \<^verbatim>\<open>_core_add_slack_variables\<close>. Every one of them is
  fixed at 0 before its value is first read, so the value is a number.
\<close>

record slack =
  slack_local_name :: string
  slack_value :: real
  slack_fixed :: bool

definition slack_name :: "slack \<Rightarrow> string" where
  "slack_name v = ''_core_add_slack_variables.'' @ slack_local_name v"

text \<open>\<^verbatim>\<open>v.fix(0)\<close> and \<^verbatim>\<open>v.unfix()\<close>.\<close>

definition fix0 :: "slack \<Rightarrow> slack" where
  "fix0 v = v\<lparr>slack_value := 0, slack_fixed := True\<rparr>"

definition unfix :: "slack \<Rightarrow> slack" where
  "unfix v = v\<lparr>slack_fixed := False\<rparr>"

record model =
  model_name :: string
  blocks :: "string list"
  vars :: "var list"
  constraints :: "constr list"
  objectives :: "(string \<times> bool) list"
  slacks :: "slack list"

section \<open>Bounds as constraints\<close>

text \<open>
  \<^verbatim>\<open>_VariableBoundsAsConstraints._apply_to\<close>. The loop over the variables adds, for a
  variable that is not fixed and has a bound, the constraints \<^verbatim>\<open>(lb, v, None)\<close> and
  \<^verbatim>\<open>(None, v, ub)\<close> to the new block and then clears the bounds and the domain.
  \<^verbatim>\<open>unique_component_name\<close> is Pyomo's (it appends random digits to a name that is
  taken), so it is a parameter here.
\<close>

definition lb_constraint :: "string \<Rightarrow> var \<Rightarrow> real \<Rightarrow> constr" where
  "lb_constraint boundconstrblockname v l =
     \<lparr>con_block = boundconstrblockname, con_local_name = ''lb_for_'' @ var_name v,
      con_lower = Some l, con_body = var_name v, con_upper = None,
      con_equality = False, con_active = True\<rparr>"

definition ub_constraint :: "string \<Rightarrow> var \<Rightarrow> real \<Rightarrow> constr" where
  "ub_constraint boundconstrblockname v u =
     \<lparr>con_block = boundconstrblockname, con_local_name = ''ub_for_'' @ var_name v,
      con_lower = None, con_body = var_name v, con_upper = Some u,
      con_equality = False, con_active = True\<rparr>"

definition bound_constraints :: "string \<Rightarrow> var \<Rightarrow> constr list" where
  "bound_constraints boundconstrblockname v =
     (case var_lb v of None \<Rightarrow> [] | Some l \<Rightarrow> [lb_constraint boundconstrblockname v l]) @
     (case var_ub v of None \<Rightarrow> [] | Some u \<Rightarrow> [ub_constraint boundconstrblockname v u])"

definition clear_bounds :: "var \<Rightarrow> var" where
  "clear_bounds v = v\<lparr>var_domain := Reals, var_lb := None, var_ub := None\<rparr>"

fun apply_to_vars :: "string \<Rightarrow> var list \<Rightarrow> var list \<times> constr list" where
  "apply_to_vars boundconstrblockname [] = ([], [])"
| "apply_to_vars boundconstrblockname (v # vs) =
     (let (vs', cs') = apply_to_vars boundconstrblockname vs in
      if var_fixed v then (v # vs', cs')
      else if var_lb v = None \<and> var_ub v = None then (v # vs', cs')
      else (clear_bounds v # vs', bound_constraints boundconstrblockname v @ cs'))"

definition apply_to :: "(model \<Rightarrow> string \<Rightarrow> string) \<Rightarrow> model \<Rightarrow> model" where
  "apply_to unique_component_name instance =
     (let boundconstrblockname = unique_component_name instance ''_variable_bounds'';
          (vs, cs) = apply_to_vars boundconstrblockname (vars instance)
      in instance\<lparr>blocks := blocks instance @ [boundconstrblockname],
                   vars := vs,
                   constraints := constraints instance @ cs\<rparr>)"

text \<open>
  The constraints of the new block: the transformation appends them to the constraints
  the model had.
\<close>

definition synthesized :: "(model \<Rightarrow> string \<Rightarrow> string) \<Rightarrow> model \<Rightarrow> constr list" where
  "synthesized unique_component_name instance =
     drop (length (constraints instance)) (constraints (apply_to unique_component_name instance))"

section \<open>Reporting\<close>

datatype error =
    RuntimeError string
  | Exception string
  | AssertionError
  | AttributeError
  | SolverError

text \<open>
  The bodies of the loops of \<^verbatim>\<open>_get_results\<close> and \<^verbatim>\<open>_get_results_with_value\<close>: the
  text added to the message for one constraint, or the error raised. They read only
  \<^verbatim>\<open>c.name\<close> and \<^verbatim>\<open>c.local_name\<close>. The formatting of a float in an f-string is the
  parameter \<open>fmt\<close>.
\<close>

definition get_results_line :: "cid \<Rightarrow> error + string" where
  "get_results_line c =
     (let c_name = cid_name c in
      if py_in ''_variable_bounds'' c_name then
        (let name = cid_local_name c in
         if py_in ''lb'' name then Inr (tab @ ''lb of var '' @ drop 7 name @ nl)
         else if py_in ''ub'' name then Inr (tab @ ''ub of var '' @ drop 7 name @ nl)
         else Inl (RuntimeError ''unrecongized var name''))
      else Inr (tab @ ''constraint: '' @ c_name @ nl))"

definition get_results_with_value_line :: "(real \<Rightarrow> string) \<Rightarrow> cid \<Rightarrow> real \<Rightarrow> error + string" where
  "get_results_with_value_line fmt c val =
     (let c_name = cid_name c in
      if py_in ''_variable_bounds'' c_name then
        (let name = cid_local_name c in
         if py_in ''lb'' name then
           Inr (tab @ ''lb of var '' @ drop 7 name @ '' by '' @ fmt val @ nl)
         else if py_in ''ub'' name then
           Inr (tab @ ''ub of var '' @ drop 7 name @ '' by '' @ fmt val @ nl)
         else Inl (RuntimeError ''unrecongized var name''))
      else Inr (tab @ ''constraint: '' @ c_name @ '' by '' @ fmt val @ nl))"

fun get_results_loop :: "cid list \<Rightarrow> string \<Rightarrow> error + string" where
  "get_results_loop [] msg = Inr msg"
| "get_results_loop (c # cs) msg =
     (case get_results_line c of
        Inl e \<Rightarrow> Inl e
      | Inr line \<Rightarrow> get_results_loop cs (msg @ line))"

definition get_results :: "cid list \<Rightarrow> string option \<Rightarrow> error + string" where
  "get_results constr_generator msg =
     get_results_loop constr_generator (case msg of None \<Rightarrow> [] | Some s \<Rightarrow> s)"

fun get_results_with_value_loop ::
  "(real \<Rightarrow> string) \<Rightarrow> (cid \<times> real) list \<Rightarrow> string \<Rightarrow> error + string" where
  "get_results_with_value_loop fmt [] msg = Inr msg"
| "get_results_with_value_loop fmt ((c, val) # cs) msg =
     (case get_results_with_value_line fmt c val of
        Inl e \<Rightarrow> Inl e
      | Inr line \<Rightarrow> get_results_with_value_loop fmt cs (msg @ line))"

definition get_results_with_value ::
  "(real \<Rightarrow> string) \<Rightarrow> (cid \<times> real) list \<Rightarrow> string option \<Rightarrow> error + string" where
  "get_results_with_value fmt constr_value_generator msg =
     get_results_with_value_loop fmt constr_value_generator
       (case msg of None \<Rightarrow> [] | Some s \<Rightarrow> s)"

section \<open>The solver and the other library calls\<close>

text \<open>
  What \<^verbatim>\<open>mis.py\<close> calls and does not define is a parameter of the embedding:
  \<^item> \<open>solve\<close> is \<^verbatim>\<open>solver.solve(model, tee=tee)\<close>, for the solver that lines 83 to 89
    select. The solver is an object with a state of its own, of type \<open>'s\<close>. A call
    returns a results object, or raises (\<open>sol_results = None\<close>), and loads values into
    variables of the model it was given; it changes nothing else of the model. A
    results object is known by what \<^verbatim>\<open>pyo.check_optimal_termination\<close> says of it.
  \<^item> \<open>AddSlackVariables\<close> is Pyomo's transformation of that name.
  \<^item> \<open>unique_component_name\<close> is Pyomo's.
  \<^item> \<open>check_optimal_termination_None\<close> is what \<^verbatim>\<open>pyo.check_optimal_termination(None)\<close>
    does: it returns a truth value, or raises (\<open>None\<close>).
  \<^item> \<open>default_nl_writer\<close> is the class \<^verbatim>\<open>_default_nl_writer\<close> read from the registry
    when the module is imported.
  \<^item> \<open>format_float\<close> formats a float in an f-string.
\<close>

datatype results = Results bool

fun optimal :: "results \<Rightarrow> bool" where
  "optimal (Results b) = b"

record solution =
  sol_results :: "results option"
  sol_vars :: "(string \<times> real option) list"
  sol_slacks :: "(string \<times> real) list"

record 's env =
  solve :: "'s \<Rightarrow> model \<Rightarrow> solution \<times> 's"
  AddSlackVariables :: "model \<Rightarrow> model"
  unique_component_name :: "model \<Rightarrow> string \<Rightarrow> string"
  check_optimal_termination_None :: "bool option"
  default_nl_writer :: string
  format_float :: "real \<Rightarrow> string"

definition check_optimal_termination :: "'s env \<Rightarrow> results option \<Rightarrow> error + bool" where
  "check_optimal_termination env results =
     (case results of
        Some r \<Rightarrow> Inr (optimal r)
      | None \<Rightarrow>
          (case check_optimal_termination_None env of
             None \<Rightarrow> Inl AttributeError
           | Some b \<Rightarrow> Inr b))"

definition set_values :: "(string \<times> real option) list \<Rightarrow> var list \<Rightarrow> var list" where
  "set_values vals vs =
     map (\<lambda>v. case map_of vals (var_name v) of None \<Rightarrow> v | Some x \<Rightarrow> v\<lparr>var_value := x\<rparr>) vs"

definition set_slack_values :: "(string \<times> real) list \<Rightarrow> slack list \<Rightarrow> slack list" where
  "set_slack_values vals vs =
     map (\<lambda>v. case map_of vals (slack_local_name v) of
                 None \<Rightarrow> v
               | Some x \<Rightarrow> v\<lparr>slack_value := x\<rparr>) vs"

definition load_solution :: "solution \<Rightarrow> model \<Rightarrow> model" where
  "load_solution sol m =
     m\<lparr>vars := set_values (sol_vars sol) (vars m),
       slacks := set_slack_values (sol_slacks sol) (slacks m)\<rparr>"

definition solver_solve :: "'s env \<Rightarrow> 's \<Rightarrow> model \<Rightarrow> results option \<times> model \<times> 's" where
  "solver_solve env s m =
     (let (sol, s') = solve env s m in (sol_results sol, load_solution sol m, s'))"

section \<open>Sets of components\<close>

text \<open>
  \<^verbatim>\<open>ComponentSet\<close> keeps insertion order: a list without repetition.
\<close>

definition component_set_add :: "'a \<Rightarrow> 'a list \<Rightarrow> 'a list" where
  "component_set_add x xs = (if x \<in> set xs then xs else xs @ [x])"

section \<open>Lines 327 to 343: the constraint of a slack variable\<close>

definition quote :: string where
  "quote = [CHR 0x27]"

definition find_component :: "model \<Rightarrow> string \<Rightarrow> constr option" where
  "find_component m name = find (\<lambda>c. con_name c = name) (constraints m)"

definition get_constraint :: "model \<Rightarrow> slack \<Rightarrow> error + constr" where
  "get_constraint m v =
     (if py_in ''_slack_plus_'' (slack_name v) then
        (case find_component m
                (drop (length ''_slack_plus_'') (slack_local_name v)) of
           None \<Rightarrow>
             Inl (RuntimeError (''Bad constraint name {v.local_name[len('' @ quote @
                  ''_slack_plus_'' @ quote @ ''):]}''))
         | Some constr \<Rightarrow> Inr constr)
      else if py_in ''_slack_minus_'' (slack_name v) then
        (case find_component m
                (drop (length ''_slack_minus_'') (slack_local_name v)) of
           None \<Rightarrow>
             Inl (RuntimeError (''Bad constraint name {v.local_name[len('' @ quote @
                  ''_slack_minus_'' @ quote @ ''):]}''))
         | Some constr \<Rightarrow> Inr constr)
      else Inl (RuntimeError ''Bad var name {v.name}''))"

section \<open>Lines 171 to 181: one scan of the slack variables\<close>

text \<open>
  \<^verbatim>\<open>_constraint_generator\<close> is a generator consumed by \<^verbatim>\<open>_get_results_with_value\<close>:
  for a slack variable above the tolerance it finds the constraint, yields it with the
  value, the consumer adds the line to the message (or raises), and only then the
  generator goes on to fix the variable and to add to the two sets. The two loops are
  one recursion over the slack variables here, in that order. The first component of
  the accumulator holds the slack variables already passed.
\<close>

fun constraint_generator ::
  "(real \<Rightarrow> string) \<Rightarrow> real \<Rightarrow> model \<Rightarrow> slack list \<Rightarrow>
   slack list \<times> string \<times> string list \<times> cid list \<Rightarrow>
   error + slack list \<times> string \<times> string list \<times> cid list" where
  "constraint_generator fmt tolerance m [] acc = Inr acc"
| "constraint_generator fmt tolerance m (v # vs) (passed, msg, fixed_slacks, elastic_filter) =
     (if slack_value v > tolerance then
        (case get_constraint m v of
           Inl e \<Rightarrow> Inl e
         | Inr constr \<Rightarrow>
             (case get_results_with_value_line fmt (con_id constr) (slack_value v) of
                Inl e \<Rightarrow> Inl e
              | Inr line \<Rightarrow>
                  constraint_generator fmt tolerance m vs
                    (passed @ [fix0 v], msg @ line,
                     component_set_add (slack_local_name v) fixed_slacks,
                     component_set_add (con_id constr) elastic_filter)))
      else constraint_generator fmt tolerance m vs
             (passed @ [v], msg, fixed_slacks, elastic_filter))"

section \<open>The state of \<^verbatim>\<open>compute_infeasibility_explanation\<close>\<close>

text \<open>
  The caller's model, the registered NL writer, the printed text and the solver are
  what the caller can see afterwards; the rest are the routine's local variables.
  \<^verbatim>\<open>ComponentSet\<close> keeps insertion order, so the two sets are lists without
  repetition; a constraint is referred to by its identity \<open>cid\<close>, a slack variable by its
  local name. A result \<open>Inl (e, st)\<close> is the exception \<open>e\<close> leaving the routine in state
  \<open>st\<close>.
\<close>

record 's state =
  orig_model :: model
  modified_model :: model
  value_cache :: "(string \<times> real option) list"
  msg :: string
  fixed_slacks :: "string list"
  elastic_filter :: "cid list"
  nl_writer :: string
  printed :: "string list"
  solver_state :: 's

type_synonym 's result = "error \<times> 's state + 's state"

definition solve_modified_model :: "'s env \<Rightarrow> 's state \<Rightarrow> results option \<times> 's state" where
  "solve_modified_model env st =
     (let (results, m, s) = solver_solve env (solver_state st) (modified_model st)
      in (results, st\<lparr>modified_model := m, solver_state := s\<rparr>))"

definition restore_values :: "'s state \<Rightarrow> 's state" where
  "restore_values st =
     st\<lparr>modified_model :=
          (modified_model st)\<lparr>vars := set_values (value_cache st) (vars (modified_model st))\<rparr>\<rparr>"

subsection \<open>Lines 81 to 162: the clone, the value cache, the two transformations\<close>

definition component :: "slack list \<Rightarrow> string \<Rightarrow> slack option" where
  "component slack_block name = find (\<lambda>v. slack_local_name v = name) slack_block"

definition unfix_component :: "string \<Rightarrow> slack list \<Rightarrow> slack list" where
  "unfix_component name slack_block =
     map (\<lambda>v. if slack_local_name v = name then unfix v else v) slack_block"

definition in_block :: "string \<Rightarrow> constr \<Rightarrow> bool" where
  "in_block b c = (con_block c = b \<or> startswith (con_block c) (b @ ''.''))"

fun unfix_bound_slacks :: "constr list \<Rightarrow> slack list \<Rightarrow> error + slack list" where
  "unfix_bound_slacks [] slack_block = Inr slack_block"
| "unfix_bound_slacks (c # cs) slack_block =
     (let plus = ''_slack_plus_'' @ con_name c;
          minus = ''_slack_minus_'' @ con_name c
      in if component slack_block plus = None \<and> component slack_block minus = None
         then Inl AssertionError
         else unfix_bound_slacks cs (unfix_component minus (unfix_component plus slack_block)))"

definition prepare :: "'s env \<Rightarrow> model \<Rightarrow> string \<Rightarrow> 's \<Rightarrow> 's result" where
  "prepare env model writer s =
     (let value_cache = map (\<lambda>v. (var_name v, var_value v)) (vars model);
          cloned = model\<lparr>vars := set_values value_cache (vars model)\<rparr>;
          with_bounds = apply_to (unique_component_name env) cloned;
          with_slacks = AddSlackVariables env with_bounds;
          all_fixed = with_slacks\<lparr>slacks := map fix0 (slacks with_slacks)\<rparr>;
          st = \<lparr>orig_model = model, modified_model = all_fixed, value_cache = value_cache,
                msg = [], fixed_slacks = [], elastic_filter = [],
                nl_writer = writer, printed = [], solver_state = s\<rparr>
      in case unfix_bound_slacks
                (filter (in_block ''_variable_bounds'') (constraints all_fixed))
                (slacks all_fixed) of
           Inl e \<Rightarrow> Inl (e, st)
         | Inr slack_block \<Rightarrow>
             Inr (st\<lparr>modified_model := all_fixed\<lparr>slacks := slack_block\<rparr>\<rparr>))"

subsection \<open>Lines 164 to 191: the constraint loop\<close>

definition constraint_scan :: "'s env \<Rightarrow> real \<Rightarrow> 's state \<Rightarrow> error + 's state" where
  "constraint_scan env tolerance st =
     (let elastic_filter_size_initial = length (elastic_filter st) in
      case constraint_generator (format_float env) tolerance (modified_model st)
             (slacks (modified_model st))
             ([], msg st, fixed_slacks st, elastic_filter st) of
        Inl e \<Rightarrow> Inl e
      | Inr (slack_block, msg', fixed_slacks', elastic_filter') \<Rightarrow>
          if length elastic_filter' = elastic_filter_size_initial
          then Inl (Exception (''Found model '' @ model_name (orig_model st) @
                               '' to be feasible!''))
          else Inr (st\<lparr>modified_model := (modified_model st)\<lparr>slacks := slack_block\<rparr>,
                       msg := msg', fixed_slacks := fixed_slacks',
                       elastic_filter := elastic_filter'\<rparr>))"


text \<open>
  The \<^verbatim>\<open>while True\<close> loop. Every pass that does not raise adds a constraint of the model
  to the elastic filter, so the constraints outside the filter are the measure.
\<close>

lemma component_set_add_cases:
  "component_set_add x xs = xs \<and> x \<in> set xs \<or> component_set_add x xs = xs @ [x] \<and> x \<notin> set xs"
  by (simp add: component_set_add_def)

lemma get_constraint_in_model:
  "get_constraint m v = Inr c \<Longrightarrow> c \<in> set (constraints m)"
  by (auto simp: get_constraint_def find_component_def find_Some_iff
           split: if_splits option.splits)

lemma constraint_generator_filter_grows:
  "constraint_generator fmt tolerance m vs (passed, tx, fixed, ef) = Inr (passed', tx', fixed', ef')
   \<Longrightarrow> \<exists>new. ef' = ef @ new \<and> set new \<subseteq> con_id ` set (constraints m) - set ef"
proof (induction vs arbitrary: passed tx fixed ef)
  case Nil
  then show ?case by simp
next
  case (Cons v vs)
  show ?case
  proof (cases "slack_value v > tolerance")
    case False
    with Cons.prems have
      "constraint_generator fmt tolerance m vs (passed @ [v], tx, fixed, ef) =
         Inr (passed', tx', fixed', ef')"
      by simp
    from Cons.IH[OF this] show ?thesis .
  next
    case True
    with Cons.prems obtain c line where c: "get_constraint m v = Inr c"
      and "get_results_with_value_line fmt (con_id c) (slack_value v) = Inr line"
      and rest: "constraint_generator fmt tolerance m vs
            (passed @ [fix0 v], tx @ line, component_set_add (slack_local_name v) fixed,
             component_set_add (con_id c) ef) = Inr (passed', tx', fixed', ef')"
      by (auto split: sum.splits)
    from Cons.IH[OF rest] obtain new where new: "ef' = component_set_add (con_id c) ef @ new"
      "set new \<subseteq> con_id ` set (constraints m) - set (component_set_add (con_id c) ef)"
      by blast
    from get_constraint_in_model[OF c] have inm: "con_id c \<in> con_id ` set (constraints m)"
      by simp
    from component_set_add_cases[of "con_id c" ef] show ?thesis
    proof
      assume "component_set_add (con_id c) ef = ef \<and> con_id c \<in> set ef"
      with new show ?thesis by auto
    next
      assume a: "component_set_add (con_id c) ef = ef @ [con_id c] \<and> con_id c \<notin> set ef"
      with new have "ef' = ef @ (con_id c # new)" by simp
      moreover from a new inm have
        "set (con_id c # new) \<subseteq> con_id ` set (constraints m) - set ef"
        by auto
      ultimately show ?thesis by blast
    qed
  qed
qed

lemma constraint_scan_measure:
  assumes "constraint_scan env tolerance st = Inr st'"
  shows "constraints (modified_model st') = constraints (modified_model st) \<and>
         card (con_id ` set (constraints (modified_model st')) - set (elastic_filter st')) <
         card (con_id ` set (constraints (modified_model st)) - set (elastic_filter st))"
proof -
  from assms obtain passed tx' fixed' ef' where
    g: "constraint_generator (format_float env) tolerance (modified_model st) (slacks (modified_model st))
          ([], msg st, fixed_slacks st, elastic_filter st) = Inr (passed, tx', fixed', ef')"
    and len: "length ef' \<noteq> length (elastic_filter st)"
    and st': "st' = st\<lparr>modified_model := (modified_model st)\<lparr>slacks := passed\<rparr>,
                       msg := tx', fixed_slacks := fixed', elastic_filter := ef'\<rparr>"
    by (auto simp: constraint_scan_def Let_def split: sum.splits if_splits)
  from constraint_generator_filter_grows[OF g] obtain new where
    new: "ef' = elastic_filter st @ new"
      "set new \<subseteq> con_id ` set (constraints (modified_model st)) - set (elastic_filter st)"
    by blast
  from new(1) len obtain x where x: "x \<in> set new" by (cases new) auto
  let ?C = "con_id ` set (constraints (modified_model st))"
  have "?C - set ef' \<subset> ?C - set (elastic_filter st)"
    using new x by auto
  then have "card (?C - set ef') < card (?C - set (elastic_filter st))"
    by (intro psubset_card_mono) auto
  with st' show ?thesis by simp
qed

lemma solve_modified_model_frame:
  assumes "solve_modified_model env st = (r, st')"
  shows "constraints (modified_model st') = constraints (modified_model st) \<and>
         objectives (modified_model st') = objectives (modified_model st) \<and>
         elastic_filter st' = elastic_filter st \<and> fixed_slacks st' = fixed_slacks st \<and>
         msg st' = msg st \<and> orig_model st' = orig_model st \<and> nl_writer st' = nl_writer st \<and>
         printed st' = printed st \<and> value_cache st' = value_cache st"
  using assms
  by (auto simp: solve_modified_model_def solver_solve_def load_solution_def Let_def
           split: prod.splits)

lemma restore_values_frame:
  "constraints (modified_model (restore_values st)) = constraints (modified_model st) \<and>
   slacks (modified_model (restore_values st)) = slacks (modified_model st) \<and>
   objectives (modified_model (restore_values st)) = objectives (modified_model st) \<and>
   elastic_filter (restore_values st) = elastic_filter st \<and>
   fixed_slacks (restore_values st) = fixed_slacks st \<and>
   msg (restore_values st) = msg st \<and> orig_model (restore_values st) = orig_model st \<and>
   nl_writer (restore_values st) = nl_writer st \<and> printed (restore_values st) = printed st \<and>
   value_cache (restore_values st) = value_cache st \<and>
   solver_state (restore_values st) = solver_state st"
  by (simp add: restore_values_def)

function constraint_loop_while :: "'s env \<Rightarrow> real \<Rightarrow> string \<Rightarrow> 's state \<Rightarrow> 's result" where
  "constraint_loop_while env tolerance relaxed_things st =
     (case constraint_scan env tolerance st of
        Inl e \<Rightarrow> Inl (e, st)
      | Inr st1 \<Rightarrow>
          (case solve_modified_model env (restore_values st1) of
             (None, st2) \<Rightarrow> Inl (SolverError, st2)
           | (Some results, st2) \<Rightarrow>
               if optimal results
               then constraint_loop_while env tolerance relaxed_things
                      (st2\<lparr>msg := msg st2 @
                          ''Another feasible solution was found with only the following '' @
                          relaxed_things @ '' relaxed:'' @ nl\<rparr>)
               else Inr st2))"
  by pat_completeness auto
termination
proof (relation "measure (\<lambda>(env, tolerance, relaxed_things, st).
         card (con_id ` set (constraints (modified_model st)) - set (elastic_filter st)))",
       goal_cases)
  case 1
  show ?case by simp
next
  case (2 env tolerance relaxed_things st st1 r st2 results)
  from constraint_scan_measure[OF 2(1)] restore_values_frame[of st1]
    solve_modified_model_frame[OF 2(2)[symmetric]]
  show ?case by (elim conjE) simp
qed

definition constraint_loop :: "'s env \<Rightarrow> real \<Rightarrow> string \<Rightarrow> 's state \<Rightarrow> 's result" where
  "constraint_loop env tolerance relaxed_things st =
     constraint_loop_while env tolerance relaxed_things
       (st\<lparr>msg :=
          (if msg st = []
           then msg st @ ''Model '' @ model_name (orig_model st) @
                '' may be infeasible. A feasible solution was found with only the following '' @
                relaxed_things @ '' relaxed:'' @ nl
           else msg st @ ''Another feasible solution was found with only the following '' @
                relaxed_things @ '' relaxed:'' @ nl)\<rparr>)"

subsection \<open>Lines 193 to 230: the three relaxations and the feasible solution\<close>

definition relax :: "'s env \<Rightarrow> real \<Rightarrow> string \<Rightarrow> 's state \<Rightarrow> 's result" where
  "relax env tolerance relaxed_things st =
     (case solve_modified_model env st of
        (None, st1) \<Rightarrow> Inl (SolverError, st1)
      | (Some results, st1) \<Rightarrow>
          if optimal results then constraint_loop env tolerance relaxed_things st1
          else Inr st1)"

fun unfix_inequality_slacks :: "model \<Rightarrow> string list \<Rightarrow> slack list \<Rightarrow> error + slack list" where
  "unfix_inequality_slacks m fixed [] = Inr []"
| "unfix_inequality_slacks m fixed (v # vs) =
     (case get_constraint m v of
        Inl e \<Rightarrow> Inl e
      | Inr c \<Rightarrow>
          (case unfix_inequality_slacks m fixed vs of
             Inl e \<Rightarrow> Inl e
           | Inr vs' \<Rightarrow>
               Inr ((if con_equality c then v
                     else if slack_local_name v \<notin> set fixed then unfix v
                     else v) # vs')))"

definition unfix_inequalities :: "'s state \<Rightarrow> 's result" where
  "unfix_inequalities st =
     (case unfix_inequality_slacks (modified_model st) (fixed_slacks st)
             (slacks (modified_model st)) of
        Inl e \<Rightarrow> Inl (e, st)
      | Inr slack_block \<Rightarrow>
          Inr (st\<lparr>modified_model := (modified_model st)\<lparr>slacks := slack_block\<rparr>\<rparr>))"

definition unfix_remaining :: "'s state \<Rightarrow> 's state" where
  "unfix_remaining st =
     st\<lparr>modified_model := (modified_model st)
          \<lparr>slacks := map (\<lambda>v. if slack_local_name v \<notin> set (fixed_slacks st) then unfix v else v)
                       (slacks (modified_model st))\<rparr>\<rparr>"

definition load_feasible_solution :: "'s env \<Rightarrow> 's state \<Rightarrow> 's result" where
  "load_feasible_solution env st =
     (if length (elastic_filter st) = 0 then
        (let loaded = (orig_model st)
               \<lparr>vars := set_values (map (\<lambda>v. (var_name v, var_value v))
                                       (vars (modified_model st)))
                                  (vars (orig_model st))\<rparr>
         in case solver_solve env (solver_state st) loaded of
              (None, m, s) \<Rightarrow> Inl (SolverError, st\<lparr>orig_model := m, solver_state := s\<rparr>)
            | (Some results, m, s) \<Rightarrow>
                Inr (st\<lparr>orig_model := m, solver_state := s,
                        printed := printed st @
                          [if optimal results then ''A feasible solution was found!''
                           else ''Could not find a feasible solution with violated constraints or bounds. This model is likely unstable'']\<rparr>))
      else Inr st)"

subsection \<open>Lines 232 to 288: the deletion filter\<close>

definition set_active :: "cid \<Rightarrow> bool \<Rightarrow> model \<Rightarrow> model" where
  "set_active i a m =
     m\<lparr>constraints := map (\<lambda>c. if con_id c = i then c\<lparr>con_active := a\<rparr> else c) (constraints m)\<rparr>"

definition deletion_filter_setup :: "'s state \<Rightarrow> 's state" where
  "deletion_filter_setup st =
     st\<lparr>modified_model := (modified_model st)
          \<lparr>slacks := map fix0 (slacks (modified_model st)),
           objectives := map (\<lambda>(name, active). (name, False)) (objectives (modified_model st)),
           constraints := map (\<lambda>c. if con_id c \<in> set (elastic_filter st) then c
                                    else c\<lparr>con_active := False\<rparr>)
                              (constraints (modified_model st))\<rparr>\<rparr>"

definition deletion_test ::
  "'s env \<Rightarrow> cid \<Rightarrow> 's state \<times> cid list \<times> cid list \<Rightarrow> 's state \<times> cid list \<times> cid list" where
  "deletion_test env constr acc =
     (case acc of (st, deletion_filter, guards) \<Rightarrow>
        (case solve_modified_model env
                (restore_values
                   (st\<lparr>modified_model := set_active constr False (modified_model st)\<rparr>)) of
           (None, st1) \<Rightarrow>
             (st1\<lparr>modified_model := set_active constr True (modified_model st1)\<rparr>,
              deletion_filter, guards @ [constr])
         | (Some results, st1) \<Rightarrow>
             if optimal results
             then (st1\<lparr>modified_model := set_active constr True (modified_model st1)\<rparr>,
                   deletion_filter @ [constr], guards)
             else (st1, deletion_filter, guards)))"

fun deletion_sweep ::
  "'s env \<Rightarrow> cid list \<Rightarrow> 's state \<times> cid list \<times> cid list \<Rightarrow> 's state \<times> cid list \<times> cid list" where
  "deletion_sweep env [] acc = acc"
| "deletion_sweep env (constr # rest) acc = deletion_sweep env rest (deletion_test env constr acc)"

definition restore_writer_and_print :: "'s env \<Rightarrow> 's state \<Rightarrow> 's state" where
  "restore_writer_and_print env st =
     st\<lparr>nl_writer := default_nl_writer env, printed := printed st @ [msg st]\<rparr>"

definition deletion_filter_phase :: "'s env \<Rightarrow> 's state \<Rightarrow> 's result" where
  "deletion_filter_phase env st =
     (case solve_modified_model env (deletion_filter_setup (st\<lparr>nl_writer := ''nl_v1''\<rparr>)) of
        (results, st1) \<Rightarrow>
          (case check_optimal_termination env results of
             Inl e \<Rightarrow> Inl (e, st1)
           | Inr True \<Rightarrow>
               Inr (restore_writer_and_print env
                      (st1\<lparr>msg := msg st1 @
                          ''Could not determine Minimal Intractable System'' @ nl\<rparr>))
           | Inr False \<Rightarrow>
               (case deletion_sweep env (elastic_filter st1) (st1, [], []) of
                  (st2, deletion_filter, guards) \<Rightarrow>
                    (case get_results deletion_filter
                            (Some (msg st2 @
                               ''Computed Minimal Intractable System (MIS)!'' @ nl @
                               ''Constraints / bounds in MIS:'' @ nl)) of
                       Inl e \<Rightarrow> Inl (e, st2)
                     | Inr msg1 \<Rightarrow>
                         (case get_results guards
                                 (Some (msg1 @
                                    ''Constraints / bounds in guards for stability:'')) of
                            Inl e \<Rightarrow> Inl (e, st2)
                          | Inr msg2 \<Rightarrow>
                              Inr (restore_writer_and_print env (st2\<lparr>msg := msg2\<rparr>)))))))"

subsection \<open>The routine\<close>

definition compute_infeasibility_explanation ::
  "'s env \<Rightarrow> real \<Rightarrow> model \<Rightarrow> string \<Rightarrow> 's \<Rightarrow> 's result" where
  "compute_infeasibility_explanation env tolerance model writer s =
     (case prepare env model writer s of
        Inl e \<Rightarrow> Inl e
      | Inr st0 \<Rightarrow>
     (case relax env tolerance ''variable bounds'' st0 of
        Inl e \<Rightarrow> Inl e
      | Inr st1 \<Rightarrow>
     (case unfix_inequalities st1 of
        Inl e \<Rightarrow> Inl e
      | Inr st2 \<Rightarrow>
     (case relax env tolerance ''inequality constraints and/or variable bounds'' st2 of
        Inl e \<Rightarrow> Inl e
      | Inr st3 \<Rightarrow>
     (case relax env tolerance
             ''inequality constraints, equality constraints, and/or variable bounds''
             (unfix_remaining st3) of
        Inl e \<Rightarrow> Inl e
      | Inr st4 \<Rightarrow>
     (case load_feasible_solution env st4 of
        Inl e \<Rightarrow> Inl e
      | Inr st5 \<Rightarrow> deletion_filter_phase env st5))))))"

text \<open>What a caller sees of a result: the exception, if any, and the state left behind.\<close>

definition raised :: "'s result \<Rightarrow> error option" where
  "raised r = (case r of Inl (e, st) \<Rightarrow> Some e | Inr st \<Rightarrow> None)"

definition final :: "'s result \<Rightarrow> 's state" where
  "final r = (case r of Inl (e, st) \<Rightarrow> st | Inr st \<Rightarrow> st)"

section \<open>Example models and an example environment\<close>

text \<open>\<^verbatim>\<open>unique_component_name\<close> on a model that has no component of that name.\<close>

definition ucn_plain :: "model \<Rightarrow> string \<Rightarrow> string" where
  "ucn_plain instance name = name"

definition m_pump :: model where
  "m_pump = \<lparr>model_name = ''pump'', blocks = [],
     vars = [\<lparr>var_name = ''flow'', var_value = Some 1, var_fixed = False,
              var_lb = Some 0, var_ub = Some 10, var_domain = Restricted ''NonNegativeReals''\<rparr>,
             \<lparr>var_name = ''area'', var_value = Some 2, var_fixed = True,
              var_lb = Some 0, var_ub = None, var_domain = Restricted ''NonNegativeReals''\<rparr>],
     constraints = [], objectives = [], slacks = []\<rparr>"

definition m_tank :: model where
  "m_tank = \<lparr>model_name = ''tank'', blocks = [],
     vars = [\<lparr>var_name = ''level'', var_value = Some 1, var_fixed = False,
              var_lb = None, var_ub = None, var_domain = Reals\<rparr>,
             \<lparr>var_name = ''area'', var_value = Some 2, var_fixed = True,
              var_lb = Some 0, var_ub = None, var_domain = Restricted ''NonNegativeReals''\<rparr>],
     constraints = [\<lparr>con_block = [], con_local_name = ''balance'', con_lower = Some 0,
                     con_body = ''level - area'', con_upper = Some 0,
                     con_equality = True, con_active = True\<rparr>],
     objectives = [], slacks = []\<rparr>"

definition m_albedo :: model where
  "m_albedo = \<lparr>model_name = ''surface'', blocks = [],
     vars = [\<lparr>var_name = ''albedo'', var_value = Some (1/2), var_fixed = False,
              var_lb = None, var_ub = Some 1, var_domain = Reals\<rparr>],
     constraints = [], objectives = [], slacks = []\<rparr>"


text \<open>
  An environment for the examples. \<open>add_slack_variables\<close> follows Pyomo's
  \<^verbatim>\<open>AddSlackVariables\<close>: an active constraint with a lower bound gets the variable
  \<^verbatim>\<open>_slack_plus_\<close> followed by its name, one with an upper bound \<^verbatim>\<open>_slack_minus_\<close>
  followed by its name, in this order; the objectives are deactivated and the sum of the slack
  variables becomes the objective. The solver answers from a script, one solution per
  call, and counts its calls; with the script used up it raises.
\<close>

definition slack_vars_of :: "constr \<Rightarrow> slack list" where
  "slack_vars_of c =
     (if con_active c then
        (case con_lower c of
           None \<Rightarrow> []
         | Some l \<Rightarrow> [\<lparr>slack_local_name = ''_slack_plus_'' @ con_name c,
                       slack_value = 0, slack_fixed = False\<rparr>]) @
        (case con_upper c of
           None \<Rightarrow> []
         | Some u \<Rightarrow> [\<lparr>slack_local_name = ''_slack_minus_'' @ con_name c,
                       slack_value = 0, slack_fixed = False\<rparr>])
      else [])"

definition add_slack_variables :: "model \<Rightarrow> model" where
  "add_slack_variables m =
     m\<lparr>blocks := blocks m @ [''_core_add_slack_variables''],
       slacks := concat (map slack_vars_of (constraints m)),
       objectives := map (\<lambda>(name, active). (name, False)) (objectives m) @
                     [(''_slack_objective'', True)]\<rparr>"

type_synonym script = "solution list \<times> nat"

definition scripted_solve :: "script \<Rightarrow> model \<Rightarrow> solution \<times> script" where
  "scripted_solve s m =
     (case fst s of
        [] \<Rightarrow> (\<lparr>sol_results = None, sol_vars = [], sol_slacks = []\<rparr>, ([], Suc (snd s)))
      | r # rs \<Rightarrow> (r, (rs, Suc (snd s))))"

definition example_env :: "bool option \<Rightarrow> script env" where
  "example_env none_is_optimal =
     \<lparr>solve = scripted_solve,
      AddSlackVariables = add_slack_variables,
      unique_component_name = ucn_plain,
      check_optimal_termination_None = none_is_optimal,
      default_nl_writer = ''nl_v2'',
      format_float = (\<lambda>r. ''<float>'')\<rparr>"

text \<open>
  The model of the first scenario of the specification: one variable with the bounds
  \<open>5 \<le> x\<close> and \<open>x \<le> 2\<close>, and nothing else.
\<close>

definition m_conflict :: model where
  "m_conflict = \<lparr>model_name = ''conflict'', blocks = [],
     vars = [\<lparr>var_name = ''x'', var_value = Some 0, var_fixed = False,
              var_lb = Some 5, var_ub = Some 2, var_domain = Reals\<rparr>],
     constraints = [], objectives = [], slacks = []\<rparr>"

definition lb_slack :: string where
  "lb_slack = ''_slack_plus__variable_bounds.lb_for_x''"

definition ub_slack :: string where
  "ub_slack = ''_slack_minus__variable_bounds.ub_for_x''"

definition answer :: "bool \<Rightarrow> real \<Rightarrow> real \<Rightarrow> real \<Rightarrow> solution" where
  "answer is_optimal x lb_violation ub_violation =
     \<lparr>sol_results = Some (Results is_optimal),
      sol_vars = [(''x'', Some x)],
      sol_slacks = [(lb_slack, lb_violation), (ub_slack, ub_violation)]\<rparr>"

definition raises :: solution where
  "raises = \<lparr>sol_results = None, sol_vars = [], sol_slacks = []\<rparr>"

text \<open>
  A model that is feasible as given: \<open>0 \<le> x \<le> 10\<close> with \<open>x = 1\<close>. The solver finds the
  point \<open>x = 4\<close> with no slack.
\<close>

definition m_feasible :: model where
  "m_feasible = \<lparr>model_name = ''feasible'', blocks = [],
     vars = [\<lparr>var_name = ''x'', var_value = Some 1, var_fixed = False,
              var_lb = Some 0, var_ub = Some 10, var_domain = Reals\<rparr>],
     constraints = [], objectives = [], slacks = []\<rparr>"

definition feasible_script :: script where
  "feasible_script = ([answer True 4 0 0], 0)"

text \<open>
  Runs on the model with the conflicting bounds. In \<open>unstable_script\<close> none of the three
  relaxed solves terminates optimally and each leaves the iterate \<open>x = 7\<close> in the clone;
  the solve of the caller's model does not terminate optimally either and loads nothing;
  the last solve, of the model with every constraint deactivated, is optimal.
  In \<open>failing_script\<close> the relaxation finds both bounds (first the lower bound violated
  by 3, then the upper bound violated by 3, then no feasible point), and the solve of
  the restricted model raises an evaluation failure.
\<close>

definition loads_nothing :: "bool \<Rightarrow> solution" where
  "loads_nothing is_optimal = \<lparr>sol_results = Some (Results is_optimal), sol_vars = [], sol_slacks = []\<rparr>"

definition unstable_script :: script where
  "unstable_script =
     ([answer False 7 0 0, answer False 7 0 0, answer False 7 0 0, loads_nothing False,
       loads_nothing True], 0)"

definition failing_script :: script where
  "failing_script =
     ([answer True 2 3 0, answer True 5 0 3, answer False 3 0 0, answer False 3 0 0,
       answer False 3 0 0, raises], 0)"

text \<open>
  The state in which the deletion filter starts on the model with the conflicting
  bounds: both bound constraints are in the elastic filter.
\<close>

definition lb_for_x :: cid where
  "lb_for_x = (''_variable_bounds'', ''lb_for_x'')"

definition ub_for_x :: cid where
  "ub_for_x = (''_variable_bounds'', ''ub_for_x'')"

definition filtered :: "script \<Rightarrow> script state" where
  "filtered s =
     (final (prepare (example_env None) m_conflict ''nl_v2'' s))
       \<lparr>fixed_slacks := [lb_slack, ub_slack], elastic_filter := [lb_for_x, ub_for_x]\<rparr>"

text \<open>
  The state of a scan: the solver has left the lower bound violated by 3 and the slack
  of the upper bound at the tolerance itself.
\<close>

definition tolerance_default :: real where
  "tolerance_default = 1 / 100000000"

definition scanned :: "script state" where
  "scanned =
     (let st = final (prepare (example_env None) m_conflict ''nl_v2'' ([], 0)) in
      st\<lparr>modified_model := (modified_model st)
            \<lparr>slacks := [\<lparr>slack_local_name = lb_slack, slack_value = 3, slack_fixed = False\<rparr>,
                        \<lparr>slack_local_name = ub_slack, slack_value = tolerance_default,
                         slack_fixed = False\<rparr>]\<rparr>\<rparr>)"

text \<open>
  A run of the deletion filter over the two bounds: the solve of the restricted model
  does not terminate optimally; without the lower bound the solver finds a feasible
  point, without the upper bound it raises. The sweep starts in the state the first
  solve leaves.
\<close>

definition phase_start :: "script state" where
  "phase_start = filtered ([loads_nothing False, loads_nothing True, raises], 0)"

definition sweep_start :: "script state" where
  "sweep_start =
     snd (solve_modified_model (example_env None)
            (deletion_filter_setup (phase_start\<lparr>nl_writer := ''nl_v1''\<rparr>)))"

definition after_first_test :: "script state" where
  "after_first_test = fst (deletion_sweep (example_env None) [lb_for_x] (sweep_start, [], []))"

text \<open>
  The deletion filter with only the lower bound in the elastic filter, and a solve of the
  restricted model that terminates optimally.
\<close>

definition only_lower :: "script state" where
  "only_lower = (filtered ([loads_nothing True], 0))\<lparr>elastic_filter := [lb_for_x]\<rparr>"

section \<open>Lemmas: strings and the transformation\<close>

lemma startswith_append: "startswith (p @ s) p"
  by (induction p) auto

lemma py_in_startswith: "startswith s sub \<Longrightarrow> py_in sub s"
  by (cases s) (auto elim: startswith.elims)

lemma py_in_prepend: "py_in sub s \<Longrightarrow> py_in sub (a @ s)"
  by (induction a) auto

lemma startswith_append_left: "startswith s sub \<Longrightarrow> startswith (s @ t) sub"
  by (induction s sub rule: startswith.induct) auto

lemma py_in_append: "py_in sub s \<Longrightarrow> py_in sub (s @ t)"
proof (induction s)
  case Nil
  then show ?case by (simp add: py_in_startswith startswith_append[of "[]", simplified])
next
  case (Cons c cs)
  then show ?case by (auto dest: startswith_append_left[where t = t])
qed

lemma apply_to_vars_fst:
  "fst (apply_to_vars b vs) =
     map (\<lambda>v. if \<not> var_fixed v \<and> (var_lb v \<noteq> None \<or> var_ub v \<noteq> None) then clear_bounds v else v) vs"
  by (induction vs) (auto simp: Let_def split: prod.splits)

lemma apply_to_vars_snd:
  "snd (apply_to_vars b vs) =
     concat (map (\<lambda>v. if \<not> var_fixed v \<and> (var_lb v \<noteq> None \<or> var_ub v \<noteq> None) then bound_constraints b v else []) vs)"
  by (induction vs) (auto simp: Let_def split: prod.splits)

lemma bound_constraints_unbounded: "var_lb v = None \<Longrightarrow> var_ub v = None \<Longrightarrow> bound_constraints b v = []"
  by (simp add: bound_constraints_def)

lemma apply_to_vars_snd':
  "snd (apply_to_vars b vs) =
     concat (map (\<lambda>v. if var_fixed v then [] else bound_constraints b v) vs)"
  unfolding apply_to_vars_snd
  by (rule arg_cong[where f = concat], rule map_cong) (auto simp: bound_constraints_unbounded)

lemma synthesized_eq:
  "synthesized ucn m =
     concat (map (\<lambda>v. if var_fixed v then [] else bound_constraints (ucn m ''_variable_bounds'') v) (vars m))"
  by (simp add: synthesized_def apply_to_def Let_def case_prod_beta apply_to_vars_snd')

lemma vars_apply_to:
  "vars (apply_to ucn m) =
     map (\<lambda>v. if \<not> var_fixed v \<and> (var_lb v \<noteq> None \<or> var_ub v \<noteq> None) then clear_bounds v else v) (vars m)"
  by (simp add: apply_to_def Let_def case_prod_beta apply_to_vars_fst)

lemma constraints_apply_to:
  "constraints (apply_to ucn m) = constraints m @ synthesized ucn m"
  by (simp add: synthesized_def apply_to_def Let_def case_prod_beta)

lemma filter_concat_distinct:
  assumes "distinct (map key vs)" and "v \<in> set vs"
    and "\<And>w. w \<in> set vs \<Longrightarrow> key w \<noteq> key v \<Longrightarrow> filter P (f w) = []"
  shows "filter P (concat (map f vs)) = filter P (f v)"
  using assms
proof (induction vs)
  case Nil
  then show ?case by simp
next
  case (Cons a vs)
  show ?case
  proof (cases "a = v")
    case True
    with Cons.prems(1) have "key v \<notin> key ` set vs" by simp
    then have "\<forall>w\<in>set vs. key w \<noteq> key v" by (auto simp: image_iff)
    with Cons.prems(3) have "\<forall>w\<in>set vs. filter P (f w) = []" by simp
    then have "filter P (concat (map f vs)) = []"
      by (induction vs) auto
    with True show ?thesis by simp
  next
    case False
    with Cons.prems have v: "v \<in> set vs" and d: "distinct (map key vs)" by auto
    from v Cons.prems(1) have "key a \<noteq> key v" by force
    with Cons.prems(3)[of a] have "filter P (f a) = []" by simp
    moreover have "filter P (concat (map f vs)) = filter P (f v)"
      using Cons.IH[OF d v] Cons.prems(3) by simp
    ultimately show ?thesis by simp
  qed
qed

lemma filter_lb_bound_constraints:
  "filter (\<lambda>c. con_local_name c = ''lb_for_'' @ n) (bound_constraints b w) =
     (if var_name w = n then (case var_lb w of None \<Rightarrow> [] | Some l \<Rightarrow> [lb_constraint b w l]) else [])"
  by (auto simp: bound_constraints_def lb_constraint_def ub_constraint_def split: option.splits)

lemma filter_ub_bound_constraints:
  "filter (\<lambda>c. con_local_name c = ''ub_for_'' @ n) (bound_constraints b w) =
     (if var_name w = n then (case var_ub w of None \<Rightarrow> [] | Some u \<Rightarrow> [ub_constraint b w u]) else [])"
  by (auto simp: bound_constraints_def lb_constraint_def ub_constraint_def split: option.splits)

lemma synthesized_lb:
  assumes "distinct (map var_name (vars m))" "v \<in> set (vars m)" "\<not> var_fixed v"
  shows "filter (\<lambda>c. con_local_name c = ''lb_for_'' @ var_name v) (synthesized ucn m) =
     (case var_lb v of None \<Rightarrow> [] | Some l \<Rightarrow> [lb_constraint (ucn m ''_variable_bounds'') v l])"
proof -
  let ?f = "\<lambda>v. if var_fixed v then [] else bound_constraints (ucn m ''_variable_bounds'') v"
  have "filter (\<lambda>c. con_local_name c = ''lb_for_'' @ var_name v) (concat (map ?f (vars m))) =
        filter (\<lambda>c. con_local_name c = ''lb_for_'' @ var_name v) (?f v)"
  proof (rule filter_concat_distinct[where key = var_name, OF assms(1,2)])
    fix w :: var assume "var_name w \<noteq> var_name v"
    then show "filter (\<lambda>c. con_local_name c = ''lb_for_'' @ var_name v) (?f w) = []"
      using filter_lb_bound_constraints[of "var_name v" "ucn m ''_variable_bounds''" w] by simp
  qed
  with assms(3) show ?thesis
    using filter_lb_bound_constraints[of "var_name v" "ucn m ''_variable_bounds''" v]
    by (simp add: synthesized_eq)
qed

lemma synthesized_ub:
  assumes "distinct (map var_name (vars m))" "v \<in> set (vars m)" "\<not> var_fixed v"
  shows "filter (\<lambda>c. con_local_name c = ''ub_for_'' @ var_name v) (synthesized ucn m) =
     (case var_ub v of None \<Rightarrow> [] | Some u \<Rightarrow> [ub_constraint (ucn m ''_variable_bounds'') v u])"
proof -
  let ?f = "\<lambda>v. if var_fixed v then [] else bound_constraints (ucn m ''_variable_bounds'') v"
  have "filter (\<lambda>c. con_local_name c = ''ub_for_'' @ var_name v) (concat (map ?f (vars m))) =
        filter (\<lambda>c. con_local_name c = ''ub_for_'' @ var_name v) (?f v)"
  proof (rule filter_concat_distinct[where key = var_name, OF assms(1,2)])
    fix w :: var assume "var_name w \<noteq> var_name v"
    then show "filter (\<lambda>c. con_local_name c = ''ub_for_'' @ var_name v) (?f w) = []"
      using filter_ub_bound_constraints[of "var_name v" "ucn m ''_variable_bounds''" w] by simp
  qed
  with assms(3) show ?thesis
    using filter_ub_bound_constraints[of "var_name v" "ucn m ''_variable_bounds''" v]
    by (simp add: synthesized_eq)
qed

lemma bound_constraints_cases:
  assumes "c \<in> set (bound_constraints b v)"
  shows "(\<exists>l. var_lb v = Some l \<and> c = lb_constraint b v l) \<or>
         (\<exists>u. var_ub v = Some u \<and> c = ub_constraint b v u)"
  using assms by (cases "var_lb v"; cases "var_ub v") (auto simp: bound_constraints_def)

lemma synthesized_origin:
  assumes "c \<in> set (synthesized ucn m)"
  shows "\<exists>v\<in>set (vars m). \<not> var_fixed v \<and> con_block c = ucn m ''_variable_bounds'' \<and>
           con_body c = var_name v \<and> con_active c \<and> \<not> con_equality c \<and>
           ((con_local_name c = ''lb_for_'' @ var_name v \<and> con_lower c = var_lb v \<and>
               var_lb v \<noteq> None \<and> con_upper c = None) \<or>
            (con_local_name c = ''ub_for_'' @ var_name v \<and> con_upper c = var_ub v \<and>
               var_ub v \<noteq> None \<and> con_lower c = None))"
proof -
  from assms obtain v where v: "v \<in> set (vars m)" "\<not> var_fixed v"
    and c: "c \<in> set (bound_constraints (ucn m ''_variable_bounds'') v)"
    by (auto simp: synthesized_eq split: if_splits)
  from bound_constraints_cases[OF c] have
    "con_block c = ucn m ''_variable_bounds'' \<and>
           con_body c = var_name v \<and> con_active c \<and> \<not> con_equality c \<and>
           ((con_local_name c = ''lb_for_'' @ var_name v \<and> con_lower c = var_lb v \<and>
               var_lb v \<noteq> None \<and> con_upper c = None) \<or>
            (con_local_name c = ''ub_for_'' @ var_name v \<and> con_upper c = var_ub v \<and>
               var_ub v \<noteq> None \<and> con_lower c = None))"
    by (auto simp: lb_constraint_def ub_constraint_def)
  with v show ?thesis by blast
qed

section \<open>Lemmas: the scan, the sweep, the first solve\<close>

lemma set_component_set_add: "set (component_set_add x xs) = insert x (set xs)"
  by (auto simp: component_set_add_def)

lemma constraint_generator_step_above:
  assumes "tolerance < slack_value v"
    and "constraint_generator fmt tolerance m (v # vs) (passed, tx, fixed, ef) = Inr r"
  obtains c line where "get_constraint m v = Inr c"
    and "get_results_with_value_line fmt (con_id c) (slack_value v) = Inr line"
    and "constraint_generator fmt tolerance m vs
            (passed @ [fix0 v], tx @ line, component_set_add (slack_local_name v) fixed,
             component_set_add (con_id c) ef) = Inr r"
  using assms by (auto split: sum.splits)

lemma constraint_generator_step_below:
  assumes "\<not> tolerance < slack_value v"
    and "constraint_generator fmt tolerance m (v # vs) (passed, tx, fixed, ef) = Inr r"
  shows "constraint_generator fmt tolerance m vs (passed @ [v], tx, fixed, ef) = Inr r"
  using assms by simp

lemma constraint_generator_slacks:
  "constraint_generator fmt tolerance m vs (passed, tx, fixed, ef) = Inr (vs', tx', fixed', ef')
   \<Longrightarrow> vs' = passed @ map (\<lambda>v. if tolerance < slack_value v then fix0 v else v) vs"
proof (induction vs arbitrary: passed tx fixed ef)
  case Nil
  then show ?case by simp
next
  case (Cons v vs)
  show ?case
  proof (cases "tolerance < slack_value v")
    case True
    from constraint_generator_step_above[OF True Cons.prems] obtain c line where
      "constraint_generator fmt tolerance m vs
            (passed @ [fix0 v], tx @ line, component_set_add (slack_local_name v) fixed,
             component_set_add (con_id c) ef) = Inr (vs', tx', fixed', ef')"
      by blast
    from Cons.IH[OF this] True show ?thesis by simp
  next
    case False
    from Cons.IH[OF constraint_generator_step_below[OF False Cons.prems]] False
    show ?thesis by simp
  qed
qed

lemma constraint_generator_fixed_slacks:
  "constraint_generator fmt tolerance m vs (passed, tx, fixed, ef) = Inr (vs', tx', fixed', ef')
   \<Longrightarrow> set fixed' = set fixed \<union> slack_local_name ` {v \<in> set vs. tolerance < slack_value v}"
proof (induction vs arbitrary: passed tx fixed ef)
  case Nil
  then show ?case by simp
next
  case (Cons v vs)
  show ?case
  proof (cases "tolerance < slack_value v")
    case True
    from constraint_generator_step_above[OF True Cons.prems] obtain c line where
      "constraint_generator fmt tolerance m vs
            (passed @ [fix0 v], tx @ line, component_set_add (slack_local_name v) fixed,
             component_set_add (con_id c) ef) = Inr (vs', tx', fixed', ef')"
      by blast
    from Cons.IH[OF this] True show ?thesis
      by (auto simp: set_component_set_add)
  next
    case False
    from Cons.IH[OF constraint_generator_step_below[OF False Cons.prems]] False
    show ?thesis by auto
  qed
qed

lemma constraint_generator_elastic_filter:
  "constraint_generator fmt tolerance m vs (passed, tx, fixed, ef) = Inr (vs', tx', fixed', ef')
   \<Longrightarrow> set ef' = set ef \<union>
         {con_id c |c v. v \<in> set vs \<and> tolerance < slack_value v \<and> get_constraint m v = Inr c}"
proof (induction vs arbitrary: passed tx fixed ef)
  case Nil
  then show ?case by simp
next
  case (Cons v vs)
  show ?case
  proof (cases "tolerance < slack_value v")
    case True
    from constraint_generator_step_above[OF True Cons.prems] obtain c line where
      c: "get_constraint m v = Inr c" and
      "constraint_generator fmt tolerance m vs
            (passed @ [fix0 v], tx @ line, component_set_add (slack_local_name v) fixed,
             component_set_add (con_id c) ef) = Inr (vs', tx', fixed', ef')"
      by blast
    from Cons.IH[OF this(2)] True c show ?thesis
      by (auto simp: set_component_set_add)
  next
    case False
    from Cons.IH[OF constraint_generator_step_below[OF False Cons.prems]] False
    show ?thesis by auto
  qed
qed

lemma constraint_generator_msg:
  "constraint_generator fmt tolerance m vs (passed, tx, fixed, ef) = Inr (vs', tx', fixed', ef')
   \<Longrightarrow> \<exists>lines. tx' = tx @ concat lines \<and>
         list_all2 (\<lambda>v line. \<exists>c. get_constraint m v = Inr c \<and>
                      get_results_with_value_line fmt (con_id c) (slack_value v) = Inr line)
           (filter (\<lambda>v. tolerance < slack_value v) vs) lines"
proof (induction vs arbitrary: passed tx fixed ef)
  case Nil
  then show ?case by simp
next
  case (Cons v vs)
  show ?case
  proof (cases "tolerance < slack_value v")
    case True
    from constraint_generator_step_above[OF True Cons.prems] obtain c line where
      c: "get_constraint m v = Inr c"
      and l: "get_results_with_value_line fmt (con_id c) (slack_value v) = Inr line" and
      "constraint_generator fmt tolerance m vs
            (passed @ [fix0 v], tx @ line, component_set_add (slack_local_name v) fixed,
             component_set_add (con_id c) ef) = Inr (vs', tx', fixed', ef')"
      by blast
    from Cons.IH[OF this(3)] obtain lines where
      lines: "tx' = (tx @ line) @ concat lines"
        "list_all2 (\<lambda>v line. \<exists>c. get_constraint m v = Inr c \<and>
                      get_results_with_value_line fmt (con_id c) (slack_value v) = Inr line)
           (filter (\<lambda>v. tolerance < slack_value v) vs) lines"
      by blast
    from lines(1) have "tx' = tx @ concat (line # lines)" by simp
    moreover from lines(2) c l True have
      "list_all2 (\<lambda>v line. \<exists>c. get_constraint m v = Inr c \<and>
                      get_results_with_value_line fmt (con_id c) (slack_value v) = Inr line)
           (filter (\<lambda>v. tolerance < slack_value v) (v # vs)) (line # lines)"
      by simp
    ultimately show ?thesis by blast
  next
    case False
    from Cons.IH[OF constraint_generator_step_below[OF False Cons.prems]] False
    show ?thesis by simp
  qed
qed

lemma constraint_scan_Inr:
  assumes "constraint_scan env tolerance st = Inr st'"
  obtains vs' tx' fixed' ef' where
    "constraint_generator (format_float env) tolerance (modified_model st)
        (slacks (modified_model st)) ([], msg st, fixed_slacks st, elastic_filter st) =
       Inr (vs', tx', fixed', ef')"
    and "length ef' \<noteq> length (elastic_filter st)"
    and "st' = st\<lparr>modified_model := (modified_model st)\<lparr>slacks := vs'\<rparr>,
                  msg := tx', fixed_slacks := fixed', elastic_filter := ef'\<rparr>"
  using assms
  by (auto simp: constraint_scan_def Let_def split: sum.splits if_splits)

lemma con_id_active_update: "con_id (c\<lparr>con_active := a\<rparr>) = con_id c"
  by (simp add: con_id_def)

lemma filter_map_active_other:
  "i \<noteq> j \<Longrightarrow>
   filter (\<lambda>k. con_id k = j) (map (\<lambda>c. if con_id c = i then c\<lparr>con_active := a\<rparr> else c) cs) =
   filter (\<lambda>k. con_id k = j) cs"
  by (induction cs) (auto simp: con_id_active_update)

lemma filter_set_active_other:
  "i \<noteq> j \<Longrightarrow> filter (\<lambda>k. con_id k = j) (constraints (set_active i a m)) =
     filter (\<lambda>k. con_id k = j) (constraints m)"
proof -
  assume ne: "i \<noteq> j"
  have "constraints (set_active i a m) =
          map (\<lambda>c. if con_id c = i then c\<lparr>con_active := a\<rparr> else c) (constraints m)"
    by (simp add: set_active_def)
  then show ?thesis
    using filter_map_active_other[OF ne, of a "constraints m"] by (simp only:)
qed

lemma set_active_same:
  "k \<in> set (constraints (set_active i a m)) \<Longrightarrow> con_id k = i \<Longrightarrow> con_active k = a"
proof -
  assume k: "k \<in> set (constraints (set_active i a m))" and i: "con_id k = i"
  from k obtain c where c: "c \<in> set (constraints m)"
    and kc: "k = (if con_id c = i then c\<lparr>con_active := a\<rparr> else c)"
    unfolding set_active_def by auto
  show ?thesis
  proof (cases "con_id c = i")
    case True
    with kc show ?thesis by simp
  next
    case False
    with kc i show ?thesis by simp
  qed
qed

text \<open>The three ways one test of the sweep can end.\<close>

lemma deletion_test_cases:
  assumes "solve_modified_model env
             (restore_values (st\<lparr>modified_model := set_active c False (modified_model st)\<rparr>)) =
           (r, st1)"
  shows "deletion_test env c (st, df, gs) =
     (case r of
        None \<Rightarrow> (st1\<lparr>modified_model := set_active c True (modified_model st1)\<rparr>, df, gs @ [c])
      | Some res \<Rightarrow>
          if optimal res
          then (st1\<lparr>modified_model := set_active c True (modified_model st1)\<rparr>, df @ [c], gs)
          else (st1, df, gs))"
  using assms by (simp add: deletion_test_def split: option.splits)

lemma tested_model_constraints:
  assumes "solve_modified_model env
             (restore_values (st\<lparr>modified_model := set_active c False (modified_model st)\<rparr>)) =
           (r, st1)"
  shows "constraints (modified_model st1) = constraints (set_active c False (modified_model st))"
  using solve_modified_model_frame[OF assms]
    restore_values_frame[of "st\<lparr>modified_model := set_active c False (modified_model st)\<rparr>"]
  by simp

lemma deletion_test_other:
  assumes "deletion_test env c (st, df, gs) = (st', df', gs')" and "c \<noteq> j"
  shows "filter (\<lambda>k. con_id k = j) (constraints (modified_model st')) =
           filter (\<lambda>k. con_id k = j) (constraints (modified_model st)) \<and>
         (j \<in> set df' \<longleftrightarrow> j \<in> set df) \<and> (j \<in> set gs' \<longleftrightarrow> j \<in> set gs)"
proof -
  obtain r st1 where s: "solve_modified_model env
             (restore_values (st\<lparr>modified_model := set_active c False (modified_model st)\<rparr>)) =
           (r, st1)"
    by (cases "solve_modified_model env
             (restore_values (st\<lparr>modified_model := set_active c False (modified_model st)\<rparr>))")
  have c1: "filter (\<lambda>k. con_id k = j) (constraints (modified_model st1)) =
           filter (\<lambda>k. con_id k = j) (constraints (modified_model st))"
    using tested_model_constraints[OF s] assms(2) by (simp add: filter_set_active_other)
  have c2: "filter (\<lambda>k. con_id k = j)
              (constraints (set_active c True (modified_model st1))) =
           filter (\<lambda>k. con_id k = j) (constraints (modified_model st))"
    using c1 assms(2) by (simp add: filter_set_active_other)
  from assms(1) deletion_test_cases[OF s, of df gs] c1 c2 assms(2)
  show ?thesis
    by (auto split: option.splits if_splits)
qed

lemma deletion_sweep_other:
  assumes "deletion_sweep env cs (st, df, gs) = (st', df', gs')" and "j \<notin> set cs"
  shows "filter (\<lambda>k. con_id k = j) (constraints (modified_model st')) =
           filter (\<lambda>k. con_id k = j) (constraints (modified_model st)) \<and>
         (j \<in> set df' \<longleftrightarrow> j \<in> set df) \<and> (j \<in> set gs' \<longleftrightarrow> j \<in> set gs)"
  using assms
proof (induction cs arbitrary: st df gs)
  case Nil
  then show ?case by simp
next
  case (Cons c cs)
  obtain st1 df1 gs1 where t: "deletion_test env c (st, df, gs) = (st1, df1, gs1)"
    by (cases "deletion_test env c (st, df, gs)")
  from Cons.prems(2) have ne: "c \<noteq> j" and nin: "j \<notin> set cs" by auto
  from Cons.prems(1) t have "deletion_sweep env cs (st1, df1, gs1) = (st', df', gs')" by simp
  from Cons.IH[OF this nin] deletion_test_other[OF t ne] show ?case by simp
qed

lemma deletion_sweep_append:
  "deletion_sweep env (xs @ ys) acc = deletion_sweep env ys (deletion_sweep env xs acc)"
  by (induction xs arbitrary: acc) auto

lemma active_by_filter:
  "(\<forall>k\<in>set (constraints m). con_id k = j \<longrightarrow> P k) \<longleftrightarrow>
   (\<forall>k\<in>set (filter (\<lambda>k. con_id k = j) (constraints m)). P k)"
  by auto

text \<open>
  The writer after the deletion filter: the default one when the phase returns, and
  \<^verbatim>\<open>nl_v1\<close> when it ends in an exception.
\<close>

lemma deletion_test_writer:
  "nl_writer (fst (deletion_test env c (st, df, gs))) = nl_writer st"
proof -
  obtain r st1 where s: "solve_modified_model env
             (restore_values (st\<lparr>modified_model := set_active c False (modified_model st)\<rparr>)) =
           (r, st1)"
    by (cases "solve_modified_model env
             (restore_values (st\<lparr>modified_model := set_active c False (modified_model st)\<rparr>))")
  from solve_modified_model_frame[OF s]
    restore_values_frame[of "st\<lparr>modified_model := set_active c False (modified_model st)\<rparr>"]
  have "nl_writer st1 = nl_writer st" by simp
  with deletion_test_cases[OF s, of df gs] show ?thesis
    by (simp split: option.splits)
qed

lemma deletion_sweep_writer:
  "nl_writer (fst (deletion_sweep env cs (st, df, gs))) = nl_writer st"
proof (induction cs arbitrary: st df gs)
  case Nil
  then show ?case by simp
next
  case (Cons c cs)
  obtain st1 df1 gs1 where t: "deletion_test env c (st, df, gs) = (st1, df1, gs1)"
    by (cases "deletion_test env c (st, df, gs)")
  with deletion_test_writer[of env c st df gs] have "nl_writer st1 = nl_writer st" by simp
  with Cons.IH[of st1 df1 gs1] t show ?case by simp
qed

lemma deletion_filter_phase_writer:
  "nl_writer (final (deletion_filter_phase env st)) =
     (if raised (deletion_filter_phase env st) = None then default_nl_writer env else ''nl_v1'')"
proof -
  obtain r st1 where s:
    "solve_modified_model env (deletion_filter_setup (st\<lparr>nl_writer := ''nl_v1''\<rparr>)) = (r, st1)"
    by (cases "solve_modified_model env (deletion_filter_setup (st\<lparr>nl_writer := ''nl_v1''\<rparr>))")
  from solve_modified_model_frame[OF s] have w1: "nl_writer st1 = ''nl_v1''"
    by (simp add: deletion_filter_setup_def)
  obtain st2 df gs where sw: "deletion_sweep env (elastic_filter st1) (st1, [], []) = (st2, df, gs)"
    by (cases "deletion_sweep env (elastic_filter st1) (st1, [], [])")
  with deletion_sweep_writer[of env "elastic_filter st1" st1 "[]" "[]"] w1
  have w2: "nl_writer st2 = ''nl_v1''" by simp
  from s sw w1 w2 show ?thesis
    by (auto simp: deletion_filter_phase_def final_def raised_def restore_writer_and_print_def
             split: sum.splits bool.splits)
qed

lemma prepare_frame:
  assumes "prepare env model writer s = Inr st0"
  shows "orig_model st0 = model \<and> nl_writer st0 = writer \<and> printed st0 = [] \<and> msg st0 = [] \<and>
         elastic_filter st0 = [] \<and> fixed_slacks st0 = [] \<and> solver_state st0 = s"
  using assms by (auto simp: prepare_def Let_def split: sum.splits)

lemma constraint_generator_all_below:
  "\<forall>v\<in>set vs. \<not> tolerance < slack_value v \<Longrightarrow>
   constraint_generator fmt tolerance m vs (passed, tx, fixed, ef) = Inr (passed @ vs, tx, fixed, ef)"
  by (induction vs arbitrary: passed) auto

lemma constraint_scan_all_below:
  assumes "\<forall>v\<in>set (slacks (modified_model st)). slack_value v \<le> tolerance"
  shows "constraint_scan env tolerance st =
           Inl (Exception (''Found model '' @ model_name (orig_model st) @ '' to be feasible!''))"
proof -
  from assms have "\<forall>v\<in>set (slacks (modified_model st)). \<not> tolerance < slack_value v"
    by (simp add: not_less)
  from constraint_generator_all_below[OF this] show ?thesis
    by (simp add: constraint_scan_def)
qed

lemma example_first_test:
  "snd (deletion_sweep (example_env None) [lb_for_x] (sweep_start, [], [])) = ([lb_for_x], [])"
  by code_simp

lemma example_second_test:
  "fst (solve_modified_model (example_env None)
          (restore_values
             (after_first_test\<lparr>modified_model :=
                set_active ub_for_x False (modified_model after_first_test)\<rparr>))) = None"
  by code_simp

lemma example_sweep_length:
  "fst (snd (deletion_sweep (example_env None) [lb_for_x, ub_for_x] (sweep_start, [], []))) =
     [lb_for_x] \<and>
   length (snd (snd (deletion_sweep (example_env None) [lb_for_x, ub_for_x]
                       (sweep_start, [], [])))) = 1"
  by code_simp

text \<open>The constraints of the model after one test and after a sweep, in closed form.\<close>

lemma set_active_constraints:
  "constraints (set_active i a m) =
     map (\<lambda>k. if con_id k = i then k\<lparr>con_active := a\<rparr> else k) (constraints m)"
  by (simp add: set_active_def)

lemma reactivate_after_deactivate:
  "map (\<lambda>k. if con_id k = i then k\<lparr>con_active := True\<rparr> else k)
     (map (\<lambda>k. if con_id k = i then k\<lparr>con_active := False\<rparr> else k) cs) =
   map (\<lambda>k. if con_id k = i then k\<lparr>con_active := True\<rparr> else k) cs"
  by (induction cs) (simp_all add: con_id_active_update)

lemma deletion_test_constraints:
  assumes "deletion_test env c (st, df, gs) = (st', df', gs')" and "c \<notin> set df" and "c \<notin> set gs"
  shows "constraints (modified_model st') =
           map (\<lambda>k. if con_id k = c then k\<lparr>con_active := (c \<in> set df' \<or> c \<in> set gs')\<rparr> else k)
               (constraints (modified_model st))"
proof -
  obtain r st1 where s: "solve_modified_model env
             (restore_values (st\<lparr>modified_model := set_active c False (modified_model st)\<rparr>)) =
           (r, st1)"
    by (cases "solve_modified_model env
             (restore_values (st\<lparr>modified_model := set_active c False (modified_model st)\<rparr>))")
  have t1: "constraints (modified_model st1) =
              map (\<lambda>k. if con_id k = c then k\<lparr>con_active := False\<rparr> else k)
                  (constraints (modified_model st))"
    using tested_model_constraints[OF s] by (simp add: set_active_constraints)
  have t2: "constraints (set_active c True (modified_model st1)) =
              map (\<lambda>k. if con_id k = c then k\<lparr>con_active := True\<rparr> else k)
                  (constraints (modified_model st))"
    unfolding set_active_constraints t1 by (rule reactivate_after_deactivate)
  show ?thesis
  proof (cases r)
    case None
    with assms(1) deletion_test_cases[OF s, of df gs] have
      "st' = st1\<lparr>modified_model := set_active c True (modified_model st1)\<rparr>" "gs' = gs @ [c]"
      by simp_all
    with t2 show ?thesis by simp
  next
    case (Some results)
    show ?thesis
    proof (cases "optimal results")
      case True
      with Some assms(1) deletion_test_cases[OF s, of df gs] have
        "st' = st1\<lparr>modified_model := set_active c True (modified_model st1)\<rparr>" "df' = df @ [c]"
        by simp_all
      with t2 show ?thesis by simp
    next
      case False
      with Some assms(1) deletion_test_cases[OF s, of df gs] have
        "st' = st1" "df' = df" "gs' = gs"
        by simp_all
      with t1 assms(2,3) show ?thesis by simp
    qed
  qed
qed

lemma deletion_sweep_constraints:
  assumes "distinct cs" and "set cs \<inter> (set df \<union> set gs) = {}"
    and "deletion_sweep env cs (st, df, gs) = (st', df', gs')"
  shows "constraints (modified_model st') =
           map (\<lambda>k. if con_id k \<in> set cs
                     then k\<lparr>con_active := (con_id k \<in> set df' \<or> con_id k \<in> set gs')\<rparr>
                     else k)
               (constraints (modified_model st))"
  using assms
proof (induction cs arbitrary: st df gs)
  case Nil
  then show ?case by (simp add: map_idI)
next
  case (Cons c cs)
  obtain st1 df1 gs1 where t: "deletion_test env c (st, df, gs) = (st1, df1, gs1)"
    by (cases "deletion_test env c (st, df, gs)")
  from Cons.prems(1) have nc: "c \<notin> set cs" and d: "distinct cs" by simp_all
  from Cons.prems(2) have c0: "c \<notin> set df" "c \<notin> set gs"
    and r0: "set cs \<inter> (set df \<union> set gs) = {}" by auto
  have r1: "set cs \<inter> (set df1 \<union> set gs1) = {}"
  proof -
    have "j \<notin> set df1 \<and> j \<notin> set gs1" if "j \<in> set cs" for j
    proof -
      from that nc have "c \<noteq> j" by auto
      from deletion_test_other[OF t this] that r0 show ?thesis by auto
    qed
    then show ?thesis by auto
  qed
  from Cons.prems(3) t have sw: "deletion_sweep env cs (st1, df1, gs1) = (st', df', gs')"
    by simp
  note ih = Cons.IH[OF d r1 sw]
  from deletion_sweep_other[OF sw nc] have
    keep: "c \<in> set df' \<longleftrightarrow> c \<in> set df1" "c \<in> set gs' \<longleftrightarrow> c \<in> set gs1"
    by simp_all
  note first = deletion_test_constraints[OF t c0]
  show ?case
    unfolding ih first map_map
  proof (rule map_cong[OF refl])
    fix k assume "k \<in> set (constraints (modified_model st))"
    show "((\<lambda>k. if con_id k \<in> set cs
                then k\<lparr>con_active := (con_id k \<in> set df' \<or> con_id k \<in> set gs')\<rparr> else k) \<circ>
           (\<lambda>k. if con_id k = c then k\<lparr>con_active := (c \<in> set df1 \<or> c \<in> set gs1)\<rparr> else k)) k =
          (if con_id k \<in> set (c # cs)
           then k\<lparr>con_active := (con_id k \<in> set df' \<or> con_id k \<in> set gs')\<rparr> else k)"
    proof (cases "con_id k = c")
      case True
      with nc keep show ?thesis by (simp add: con_id_active_update)
    next
      case False
      then show ?thesis by simp
    qed
  qed
qed

lemma deletion_sweep_lists:
  assumes "deletion_sweep env cs (st, df, gs) = (st', df', gs')"
  shows "set df' \<subseteq> set df \<union> set cs \<and> set gs' \<subseteq> set gs \<union> set cs"
proof -
  have "j \<in> set df \<union> set cs" if "j \<in> set df'" for j
    using deletion_sweep_other[OF assms, of j] that by (cases "j \<in> set cs") auto
  moreover have "j \<in> set gs \<union> set cs" if "j \<in> set gs'" for j
    using deletion_sweep_other[OF assms, of j] that by (cases "j \<in> set cs") auto
  ultimately show ?thesis by auto
qed

lemma deletion_test_frame:
  "msg (fst (deletion_test env c (st, df, gs))) = msg st \<and>
   printed (fst (deletion_test env c (st, df, gs))) = printed st \<and>
   orig_model (fst (deletion_test env c (st, df, gs))) = orig_model st \<and>
   elastic_filter (fst (deletion_test env c (st, df, gs))) = elastic_filter st"
proof -
  obtain r st1 where s: "solve_modified_model env
             (restore_values (st\<lparr>modified_model := set_active c False (modified_model st)\<rparr>)) =
           (r, st1)"
    by (cases "solve_modified_model env
             (restore_values (st\<lparr>modified_model := set_active c False (modified_model st)\<rparr>))")
  from solve_modified_model_frame[OF s]
    restore_values_frame[of "st\<lparr>modified_model := set_active c False (modified_model st)\<rparr>"]
  have "msg st1 = msg st" "printed st1 = printed st" "orig_model st1 = orig_model st"
    "elastic_filter st1 = elastic_filter st" by simp_all
  with deletion_test_cases[OF s, of df gs] show ?thesis
    by (simp split: option.splits)
qed

lemma deletion_sweep_frame:
  "msg (fst (deletion_sweep env cs (st, df, gs))) = msg st \<and>
   printed (fst (deletion_sweep env cs (st, df, gs))) = printed st \<and>
   orig_model (fst (deletion_sweep env cs (st, df, gs))) = orig_model st \<and>
   elastic_filter (fst (deletion_sweep env cs (st, df, gs))) = elastic_filter st"
proof (induction cs arbitrary: st df gs)
  case Nil
  then show ?case by simp
next
  case (Cons c cs)
  obtain st1 df1 gs1 where t: "deletion_test env c (st, df, gs) = (st1, df1, gs1)"
    by (cases "deletion_test env c (st, df, gs)")
  with deletion_test_frame[of env c st df gs] have
    "msg st1 = msg st" "printed st1 = printed st" "orig_model st1 = orig_model st"
    "elastic_filter st1 = elastic_filter st" by simp_all
  with Cons.IH[of st1 df1 gs1] t show ?case by simp
qed

lemma get_results_loop_lines:
  "list_all2 (\<lambda>c line. get_results_line c = Inr line) cs lines \<Longrightarrow>
   get_results_loop cs tx = Inr (tx @ concat lines)"
  by (induction cs lines arbitrary: tx rule: list_all2_induct) simp_all

lemma get_results_lines:
  "list_all2 (\<lambda>c line. get_results_line c = Inr line) cs lines \<Longrightarrow>
   get_results cs (Some tx) = Inr (tx @ concat lines)"
  by (simp add: get_results_def get_results_loop_lines)

lemma deletion_filter_phase_report:
  assumes "solve_modified_model env (deletion_filter_setup (st_in\<lparr>nl_writer := ''nl_v1''\<rparr>)) =
             (r0, st0)"
    and "check_optimal_termination env r0 = Inr False"
    and "deletion_sweep env (elastic_filter st_in) (st0, [], []) = (st', deletion_filter, guards)"
    and "list_all2 (\<lambda>c line. get_results_line c = Inr line) deletion_filter lines_mis"
    and "list_all2 (\<lambda>c line. get_results_line c = Inr line) guards lines_guards"
  shows "deletion_filter_phase env st_in =
           Inr (st'\<lparr>msg := msg st_in @ ''Computed Minimal Intractable System (MIS)!'' @ nl @
                         ''Constraints / bounds in MIS:'' @ nl @ concat lines_mis @
                         ''Constraints / bounds in guards for stability:'' @ concat lines_guards,
                   nl_writer := default_nl_writer env,
                   printed := printed st_in @
                     [msg st_in @ ''Computed Minimal Intractable System (MIS)!'' @ nl @
                      ''Constraints / bounds in MIS:'' @ nl @ concat lines_mis @
                      ''Constraints / bounds in guards for stability:'' @ concat lines_guards]\<rparr>)"
proof -
  from solve_modified_model_frame[OF assms(1)] have
    f0: "msg st0 = msg st_in" "printed st0 = printed st_in" "elastic_filter st0 = elastic_filter st_in"
    by (simp_all add: deletion_filter_setup_def)
  from deletion_sweep_frame[of env "elastic_filter st_in" st0 "[]" "[]"] assms(3) f0 have
    f1: "msg st' = msg st_in" "printed st' = printed st_in"
    by simp_all
  from assms(1,2,3) f0 f1 get_results_lines[OF assms(4)] get_results_lines[OF assms(5)]
  show ?thesis
    by (simp add: deletion_filter_phase_def restore_writer_and_print_def)
qed

text \<open>One member of the sweep: how its test is decided and what becomes of it.\<close>

lemma deletion_sweep_member:
  assumes "distinct (pre @ c # post)"
    and "deletion_sweep env pre (st0, [], []) = (st, df, gs)"
    and "solve_modified_model env
           (restore_values (st\<lparr>modified_model := set_active c False (modified_model st)\<rparr>)) =
         (r, st1)"
    and "deletion_sweep env (pre @ c # post) (st0, [], []) = (st', deletion_filter, guards)"
  shows "(\<forall>k\<in>set (constraints (modified_model
             (restore_values (st\<lparr>modified_model := set_active c False (modified_model st)\<rparr>)))).
            con_id k = c \<longrightarrow> \<not> con_active k) \<and>
         (r = None \<longrightarrow>
            c \<in> set guards \<and> c \<notin> set deletion_filter \<and>
            (\<forall>k\<in>set (constraints (modified_model st')). con_id k = c \<longrightarrow> con_active k)) \<and>
         (\<forall>results. r = Some results \<and> optimal results \<longrightarrow>
            c \<in> set deletion_filter \<and> c \<notin> set guards \<and>
            (\<forall>k\<in>set (constraints (modified_model st')). con_id k = c \<longrightarrow> con_active k)) \<and>
         (\<forall>results. r = Some results \<and> \<not> optimal results \<longrightarrow>
            c \<notin> set deletion_filter \<and> c \<notin> set guards \<and>
            (\<forall>k\<in>set (constraints (modified_model st')). con_id k = c \<longrightarrow> \<not> con_active k))"
proof -
  from assms(1) have npre: "c \<notin> set pre" and npost: "c \<notin> set post" by auto
  from deletion_sweep_other[OF assms(2) npre] have fresh: "c \<notin> set df" "c \<notin> set gs" by auto
  obtain st2 df2 gs2 where t: "deletion_test env c (st, df, gs) = (st2, df2, gs2)"
    by (cases "deletion_test env c (st, df, gs)")
  from assms(4) assms(2) t have "deletion_sweep env post (st2, df2, gs2) = (st', deletion_filter, guards)"
    by (simp add: deletion_sweep_append)
  from deletion_sweep_other[OF this npost] have
    keep: "filter (\<lambda>k. con_id k = c) (constraints (modified_model st')) =
           filter (\<lambda>k. con_id k = c) (constraints (modified_model st2))"
      "c \<in> set deletion_filter \<longleftrightarrow> c \<in> set df2" "c \<in> set guards \<longleftrightarrow> c \<in> set gs2"
    by auto
  have tested: "\<forall>k\<in>set (constraints (modified_model st1)). con_id k = c \<longrightarrow> \<not> con_active k"
    using tested_model_constraints[OF assms(3)] set_active_same[of _ c False "modified_model st"]
    by auto
  have before: "\<forall>k\<in>set (constraints (modified_model
             (restore_values (st\<lparr>modified_model := set_active c False (modified_model st)\<rparr>)))).
            con_id k = c \<longrightarrow> \<not> con_active k"
    using restore_values_frame[of "st\<lparr>modified_model := set_active c False (modified_model st)\<rparr>"]
      set_active_same[of _ c False "modified_model st"]
    by auto
  have reactivated:
    "\<forall>k\<in>set (constraints (set_active c True (modified_model st1))). con_id k = c \<longrightarrow> con_active k"
    using set_active_same[of _ c True "modified_model st1"] by auto
  have final: "(\<forall>k\<in>set (constraints (modified_model st')). con_id k = c \<longrightarrow> P k) \<longleftrightarrow>
               (\<forall>k\<in>set (constraints (modified_model st2)). con_id k = c \<longrightarrow> P k)" for P
    unfolding active_by_filter keep(1) ..
  show ?thesis
  proof (cases r)
    case None
    with t deletion_test_cases[OF assms(3), of df gs] have
      "st2 = st1\<lparr>modified_model := set_active c True (modified_model st1)\<rparr>" "df2 = df" "gs2 = gs @ [c]"
      by simp_all
    with None before reactivated keep fresh final show ?thesis by simp
  next
    case (Some results)
    show ?thesis
    proof (cases "optimal results")
      case True
      with Some t deletion_test_cases[OF assms(3), of df gs] have
        "st2 = st1\<lparr>modified_model := set_active c True (modified_model st1)\<rparr>" "df2 = df @ [c]" "gs2 = gs"
        by simp_all
      with Some True before reactivated keep fresh final show ?thesis by simp
    next
      case False
      with Some t deletion_test_cases[OF assms(3), of df gs] have
        "st2 = st1" "df2 = df" "gs2 = gs"
        by simp_all
      with Some False before tested keep fresh final show ?thesis by simp
    qed
  qed
qed

text \<open>
  A first solve that is optimal with no slack variable above the tolerance: the first
  scan raises, and the routine ends in the state that solve left.
\<close>

lemma feasible_first_solve_raises:
  assumes "prepare env model writer s = Inr st0"
    and "solve_modified_model env st0 = (Some results, st1)"
    and "optimal results"
    and "\<forall>v\<in>set (slacks (modified_model st1)). slack_value v \<le> tolerance"
  shows "compute_infeasibility_explanation env tolerance model writer s =
           Inl (Exception (''Found model '' @ model_name model @ '' to be feasible!''),
                st1\<lparr>msg := ''Model '' @ model_name model @
                  '' may be infeasible. A feasible solution was found with only the following '' @
                  ''variable bounds'' @ '' relaxed:'' @ nl\<rparr>) \<and>
         orig_model st1 = model \<and> nl_writer st1 = writer \<and> printed st1 = [] \<and>
         elastic_filter st1 = []"
proof -
  from prepare_frame[OF assms(1)] solve_modified_model_frame[OF assms(2)] have
    f: "orig_model st1 = model" "nl_writer st1 = writer" "printed st1 = []" "msg st1 = []"
       "elastic_filter st1 = []"
    by simp_all
  let ?st = "st1\<lparr>msg := ''Model '' @ model_name model @
                  '' may be infeasible. A feasible solution was found with only the following '' @
                  ''variable bounds'' @ '' relaxed:'' @ nl\<rparr>"
  from assms(4) have "\<forall>v\<in>set (slacks (modified_model ?st)). slack_value v \<le> tolerance"
    by simp
  from constraint_scan_all_below[OF this, of env] f(1) have
    scan: "constraint_scan env tolerance ?st =
             Inl (Exception (''Found model '' @ model_name model @ '' to be feasible!''))"
    by simp
  have loop: "constraint_loop env tolerance ''variable bounds'' st1 =
          Inl (Exception (''Found model '' @ model_name model @ '' to be feasible!''), ?st)"
    unfolding constraint_loop_def
    by (subst constraint_loop_while.simps) (use f scan in simp)
  have "relax env tolerance ''variable bounds'' st0 =
          Inl (Exception (''Found model '' @ model_name model @ '' to be feasible!''), ?st)"
    using assms(2,3) loop by (simp add: relax_def)
  with assms(1) f show ?thesis
    by (simp add: compute_infeasibility_explanation_def)
qed

section \<open>Claims about the transformation and the report\<close>

text \<open>
  Claim C5. In a model whose variables have distinct names, the transformation leaves
  the constraints the model had and appends the synthesized ones; it clears the bounds
  and sets the domain to the reals for exactly the variables that are not fixed and
  have a bound, and leaves every other variable as it was; for a variable that is not
  fixed there is exactly one constraint named \<^verbatim>\<open>lb_for_\<close> followed by the variable's name
  when the lower bound is finite, namely \<^verbatim>\<open>(lb, v, None)\<close>, and none otherwise, and
  likewise for \<^verbatim>\<open>ub_for_\<close>; every synthesized constraint lies in the new block and is
  one of these; a fixed variable is still in the model, unchanged, and no synthesized
  constraint is about it.
\<close>

theorem C5_bounds_become_constraints:
  assumes "distinct (map var_name (vars m))"
  shows "constraints (apply_to ucn m) = constraints m @ synthesized ucn m \<and>
     vars (apply_to ucn m) =
       map (\<lambda>v. if var_fixed v \<or> (var_lb v = None \<and> var_ub v = None) then v
                else v\<lparr>var_domain := Reals, var_lb := None, var_ub := None\<rparr>) (vars m) \<and>
     (\<forall>v\<in>set (vars m). \<not> var_fixed v \<longrightarrow>
        filter (\<lambda>c. con_local_name c = ''lb_for_'' @ var_name v) (synthesized ucn m) =
          (case var_lb v of None \<Rightarrow> []
           | Some l \<Rightarrow> [\<lparr>con_block = ucn m ''_variable_bounds'',
                         con_local_name = ''lb_for_'' @ var_name v,
                         con_lower = Some l, con_body = var_name v, con_upper = None,
                         con_equality = False, con_active = True\<rparr>]) \<and>
        filter (\<lambda>c. con_local_name c = ''ub_for_'' @ var_name v) (synthesized ucn m) =
          (case var_ub v of None \<Rightarrow> []
           | Some u \<Rightarrow> [\<lparr>con_block = ucn m ''_variable_bounds'',
                         con_local_name = ''ub_for_'' @ var_name v,
                         con_lower = None, con_body = var_name v, con_upper = Some u,
                         con_equality = False, con_active = True\<rparr>])) \<and>
     (\<forall>c\<in>set (synthesized ucn m).
        con_block c = ucn m ''_variable_bounds'' \<and>
        (\<exists>v\<in>set (vars m). \<not> var_fixed v \<and> con_body c = var_name v \<and>
           (con_local_name c = ''lb_for_'' @ var_name v \<and> var_lb v \<noteq> None \<or>
            con_local_name c = ''ub_for_'' @ var_name v \<and> var_ub v \<noteq> None))) \<and>
     (\<forall>v\<in>set (vars m). var_fixed v \<longrightarrow>
        v \<in> set (vars (apply_to ucn m)) \<and>
        (\<forall>c\<in>set (synthesized ucn m). con_body c \<noteq> var_name v))"
proof (intro conjI ballI impI)
  show "constraints (apply_to ucn m) = constraints m @ synthesized ucn m"
    by (rule constraints_apply_to)
next
  show "vars (apply_to ucn m) =
       map (\<lambda>v. if var_fixed v \<or> (var_lb v = None \<and> var_ub v = None) then v
                else v\<lparr>var_domain := Reals, var_lb := None, var_ub := None\<rparr>) (vars m)"
    unfolding vars_apply_to by (rule map_cong) (auto simp: clear_bounds_def)
next
  fix v assume "v \<in> set (vars m)" "\<not> var_fixed v"
  from synthesized_lb[OF assms this, of ucn]
  show "filter (\<lambda>c. con_local_name c = ''lb_for_'' @ var_name v) (synthesized ucn m) =
          (case var_lb v of None \<Rightarrow> []
           | Some l \<Rightarrow> [\<lparr>con_block = ucn m ''_variable_bounds'',
                         con_local_name = ''lb_for_'' @ var_name v,
                         con_lower = Some l, con_body = var_name v, con_upper = None,
                         con_equality = False, con_active = True\<rparr>])"
    by (cases "var_lb v") (simp_all add: lb_constraint_def)
next
  fix v assume "v \<in> set (vars m)" "\<not> var_fixed v"
  from synthesized_ub[OF assms this, of ucn]
  show "filter (\<lambda>c. con_local_name c = ''ub_for_'' @ var_name v) (synthesized ucn m) =
          (case var_ub v of None \<Rightarrow> []
           | Some u \<Rightarrow> [\<lparr>con_block = ucn m ''_variable_bounds'',
                         con_local_name = ''ub_for_'' @ var_name v,
                         con_lower = None, con_body = var_name v, con_upper = Some u,
                         con_equality = False, con_active = True\<rparr>])"
    by (cases "var_ub v") (simp_all add: ub_constraint_def)
next
  fix c assume "c \<in> set (synthesized ucn m)"
  from synthesized_origin[OF this]
  show "con_block c = ucn m ''_variable_bounds''" by blast
next
  fix c assume "c \<in> set (synthesized ucn m)"
  from synthesized_origin[OF this]
  show "\<exists>v\<in>set (vars m). \<not> var_fixed v \<and> con_body c = var_name v \<and>
           (con_local_name c = ''lb_for_'' @ var_name v \<and> var_lb v \<noteq> None \<or>
            con_local_name c = ''ub_for_'' @ var_name v \<and> var_ub v \<noteq> None)"
    by blast
next
  fix v assume v: "v \<in> set (vars m)" "var_fixed v"
  then show "v \<in> set (vars (apply_to ucn m))"
    unfolding vars_apply_to by force
next
  fix v c assume v: "v \<in> set (vars m)" "var_fixed v" and c: "c \<in> set (synthesized ucn m)"
  from synthesized_origin[OF c] obtain w where w: "w \<in> set (vars m)" "\<not> var_fixed w"
    "con_body c = var_name w" by blast
  from v w have "w \<noteq> v" by auto
  with assms v(1) w(1) have "var_name w \<noteq> var_name v"
    by (meson distinct_map inj_onD)
  with w(3) show "con_body c \<noteq> var_name v" by simp
qed

theorem C5_witness:
  "distinct (map var_name (vars m_pump)) \<and>
   vars (apply_to ucn_plain m_pump) =
     [\<lparr>var_name = ''flow'', var_value = Some 1, var_fixed = False,
       var_lb = None, var_ub = None, var_domain = Reals\<rparr>,
      \<lparr>var_name = ''area'', var_value = Some 2, var_fixed = True,
       var_lb = Some 0, var_ub = None, var_domain = Restricted ''NonNegativeReals''\<rparr>]"
proof -
  have d: "distinct (map var_name (vars m_pump))" by (simp add: m_pump_def)
  from C5_bounds_become_constraints[OF d, of ucn_plain] d show ?thesis
    by (simp add: m_pump_def)
qed

text \<open>
  Claim C8. When no variable that is not fixed has a bound, the transformation
  synthesizes no constraint and changes no variable: the constraints and the variables
  are the ones of the model. All it leaves behind is the new, empty block.
\<close>

theorem C8_unbounded_model_unchanged:
  assumes "\<forall>v\<in>set (vars m). \<not> var_fixed v \<longrightarrow> var_lb v = None \<and> var_ub v = None"
  shows "synthesized ucn m = [] \<and>
         constraints (apply_to ucn m) = constraints m \<and>
         vars (apply_to ucn m) = vars m \<and>
         apply_to ucn m = m\<lparr>blocks := blocks m @ [ucn m ''_variable_bounds'']\<rparr>"
proof -
  have s: "synthesized ucn m = []"
    using assms by (auto simp: synthesized_eq bound_constraints_def)
  have v: "vars (apply_to ucn m) = vars m"
    unfolding vars_apply_to using assms by (intro map_idI) auto
  have c: "constraints (apply_to ucn m) = constraints m"
    by (simp add: constraints_apply_to s)
  have "apply_to ucn m = m\<lparr>blocks := blocks m @ [ucn m ''_variable_bounds''],
          vars := vars (apply_to ucn m), constraints := constraints (apply_to ucn m)\<rparr>"
    by (simp add: apply_to_def Let_def case_prod_beta)
  with s v c show ?thesis by simp
qed

theorem C8_witness:
  "synthesized ucn_plain m_tank = [] \<and>
   apply_to ucn_plain m_tank = m_tank\<lparr>blocks := [''_variable_bounds'']\<rparr>"
proof -
  have h: "\<forall>v\<in>set (vars m_tank). \<not> var_fixed v \<longrightarrow> var_lb v = None \<and> var_ub v = None"
    by (simp add: m_tank_def)
  from C8_unbounded_model_unchanged[OF h, of ucn_plain] show ?thesis
    by (simp add: m_tank_def ucn_plain_def)
qed

lemma synthesized_m_albedo:
  "synthesized ucn_plain m_albedo =
     [\<lparr>con_block = ''_variable_bounds'', con_local_name = ''ub_for_albedo'',
       con_lower = None, con_body = ''albedo'', con_upper = Some 1,
       con_equality = False, con_active = True\<rparr>]"
  by (simp add: synthesized_eq m_albedo_def bound_constraints_def ub_constraint_def ucn_plain_def)

text \<open>
  Claim C9, at a failing input. The variable \<^verbatim>\<open>albedo\<close> has an upper bound only. Its
  one synthesized constraint is \<^verbatim>\<open>ub_for_albedo\<close>, the upper bound; both reporting
  helpers print it as the lower bound of \<^verbatim>\<open>albedo\<close>, because they test whether
  \<^verbatim>\<open>lb\<close> occurs anywhere in the local name before they test for \<^verbatim>\<open>ub\<close>. And an
  ordinary constraint at the root named \<^verbatim>\<open>check_variable_bounds\<close> is not printed by its
  name: the helper takes it for a bound and raises.
\<close>

theorem C9_upper_bound_reported_as_lower_bound:
  "synthesized ucn_plain m_albedo =
     [\<lparr>con_block = ''_variable_bounds'', con_local_name = ''ub_for_albedo'',
       con_lower = None, con_body = ''albedo'', con_upper = Some 1,
       con_equality = False, con_active = True\<rparr>] \<and>
   get_results (map con_id (synthesized ucn_plain m_albedo)) (Some []) =
     Inr (tab @ ''lb of var albedo'' @ nl) \<and>
   (\<forall>fmt val. get_results_with_value fmt
        (map (\<lambda>c. (con_id c, val)) (synthesized ucn_plain m_albedo)) (Some []) =
     Inr (tab @ ''lb of var albedo by '' @ fmt val @ nl)) \<and>
   get_results [([], ''check_variable_bounds'')] (Some []) =
     Inl (RuntimeError ''unrecongized var name'')"
  unfolding synthesized_m_albedo
  by (simp add: get_results_def get_results_with_value_def get_results_line_def
      get_results_with_value_line_def con_id_def cid_name_def cid_local_name_def)

lemma py_in_lb: "py_in ''lb'' (''lb_for_'' @ n)"
  by simp

lemma py_in_ub: "py_in ''ub'' (''ub_for_'' @ n)"
  by simp

lemma get_results_loop_total:
  "\<forall>c\<in>set cs. \<exists>line. get_results_line c = Inr line \<Longrightarrow> \<exists>out. get_results_loop cs tx = Inr out"
  by (induction cs arbitrary: tx) auto

lemma get_results_with_value_loop_total:
  "\<forall>(c, val)\<in>set cs. \<exists>line. get_results_with_value_line fmt c val = Inr line \<Longrightarrow>
     \<exists>out. get_results_with_value_loop fmt cs tx = Inr out"
  by (induction cs arbitrary: tx) auto

lemma synthesized_local_name:
  assumes "c \<in> set (synthesized ucn m)"
  shows "(\<exists>n. con_local_name c = ''lb_for_'' @ n) \<or> (\<exists>n. con_local_name c = ''ub_for_'' @ n)"
  using synthesized_origin[OF assms] by blast

lemma synthesized_line:
  assumes "c \<in> set (synthesized ucn m)"
  shows "\<exists>line. get_results_line (con_id c) = Inr line"
  using synthesized_local_name[OF assms]
  by (auto simp: get_results_line_def Let_def con_id_def cid_local_name_def)

lemma synthesized_line_with_value:
  assumes "c \<in> set (synthesized ucn m)"
  shows "\<exists>line. get_results_with_value_line fmt (con_id c) val = Inr line"
  using synthesized_local_name[OF assms]
  by (auto simp: get_results_with_value_line_def Let_def con_id_def cid_local_name_def)

lemma synthesized_name:
  assumes "c \<in> set (synthesized ucn m)" "py_in ''_variable_bounds'' (ucn m ''_variable_bounds'')"
  shows "py_in ''_variable_bounds'' (con_name c)"
proof -
  from synthesized_origin[OF assms(1)] have b: "con_block c = ucn m ''_variable_bounds''" by blast
  with assms(2) have "con_block c \<noteq> []" by auto
  with b assms(2) show ?thesis
    by (simp add: con_name_def cid_name_def con_id_def py_in_append)
qed

text \<open>
  Claim C10. The local name of every constraint the transformation synthesizes begins
  with \<^verbatim>\<open>lb_for_\<close> or \<^verbatim>\<open>ub_for_\<close>, and both reporting helpers return a line for it:
  they do not raise. When the name of the new block contains \<^verbatim>\<open>_variable_bounds\<close>, as
  every name \<^verbatim>\<open>unique_component_name\<close> makes from it does, the line is the one of the
  lower-bound branch or the one of the upper-bound branch.
\<close>

theorem C10_bound_constraints_never_unrecognized:
  assumes "c \<in> set (synthesized ucn m)"
  shows "(startswith (con_local_name c) ''lb_for_'' \<or> startswith (con_local_name c) ''ub_for_'') \<and>
         (\<exists>line. get_results_line (con_id c) = Inr line) \<and>
         (\<exists>line. get_results_with_value_line fmt (con_id c) val = Inr line) \<and>
         (py_in ''_variable_bounds'' (ucn m ''_variable_bounds'') \<longrightarrow>
            (get_results_line (con_id c) = Inr (tab @ ''lb of var '' @ drop 7 (con_local_name c) @ nl) \<or>
             get_results_line (con_id c) = Inr (tab @ ''ub of var '' @ drop 7 (con_local_name c) @ nl)) \<and>
            (get_results_with_value_line fmt (con_id c) val =
               Inr (tab @ ''lb of var '' @ drop 7 (con_local_name c) @ '' by '' @ fmt val @ nl) \<or>
             get_results_with_value_line fmt (con_id c) val =
               Inr (tab @ ''ub of var '' @ drop 7 (con_local_name c) @ '' by '' @ fmt val @ nl)))"
proof (intro conjI impI)
  from synthesized_local_name[OF assms]
  show "startswith (con_local_name c) ''lb_for_'' \<or> startswith (con_local_name c) ''ub_for_''"
    by auto
  show "\<exists>line. get_results_line (con_id c) = Inr line"
    by (rule synthesized_line[OF assms])
  show "\<exists>line. get_results_with_value_line fmt (con_id c) val = Inr line"
    by (rule synthesized_line_with_value[OF assms])
next
  assume "py_in ''_variable_bounds'' (ucn m ''_variable_bounds'')"
  from synthesized_name[OF assms this] synthesized_local_name[OF assms]
  show "get_results_line (con_id c) = Inr (tab @ ''lb of var '' @ drop 7 (con_local_name c) @ nl) \<or>
        get_results_line (con_id c) = Inr (tab @ ''ub of var '' @ drop 7 (con_local_name c) @ nl)"
    by (auto simp: get_results_line_def Let_def con_name_def cid_local_name_def con_id_def)
next
  assume "py_in ''_variable_bounds'' (ucn m ''_variable_bounds'')"
  from synthesized_name[OF assms this] synthesized_local_name[OF assms]
  show "get_results_with_value_line fmt (con_id c) val =
               Inr (tab @ ''lb of var '' @ drop 7 (con_local_name c) @ '' by '' @ fmt val @ nl) \<or>
             get_results_with_value_line fmt (con_id c) val =
               Inr (tab @ ''ub of var '' @ drop 7 (con_local_name c) @ '' by '' @ fmt val @ nl)"
    by (auto simp: get_results_with_value_line_def Let_def con_name_def cid_local_name_def con_id_def)
qed

theorem C10_witness:
  "get_results_line (''_variable_bounds'', ''ub_for_flow'') = Inr (tab @ ''ub of var flow'' @ nl)"
proof -
  have s: "synthesized ucn_plain m_pump =
     [\<lparr>con_block = ''_variable_bounds'', con_local_name = ''lb_for_flow'',
       con_lower = Some 0, con_body = ''flow'', con_upper = None,
       con_equality = False, con_active = True\<rparr>,
      \<lparr>con_block = ''_variable_bounds'', con_local_name = ''ub_for_flow'',
       con_lower = None, con_body = ''flow'', con_upper = Some 10,
       con_equality = False, con_active = True\<rparr>]"
    by (simp add: synthesized_eq m_pump_def bound_constraints_def lb_constraint_def
        ub_constraint_def ucn_plain_def)
  have h: "\<lparr>con_block = ''_variable_bounds'', con_local_name = ''ub_for_flow'',
       con_lower = None, con_body = ''flow'', con_upper = Some 10,
       con_equality = False, con_active = True\<rparr> \<in> set (synthesized ucn_plain m_pump)"
    unfolding s by simp
  have p: "py_in ''_variable_bounds'' (ucn_plain m_pump ''_variable_bounds'')"
    by (simp add: ucn_plain_def)
  from C10_bound_constraints_never_unrecognized[OF h, of "\<lambda>r. []" 0] p
  show ?thesis
    by (simp add: con_id_def get_results_line_def cid_name_def cid_local_name_def)
qed

section \<open>Claims about the deletion filter\<close>

text \<open>
  Claim C1. Take any member \<open>c\<close> of the elastic filter, a list without repetition, and
  the sweep up to it. The model that is solved in its test is the model at its turn with
  \<open>c\<close> deactivated and no other constraint touched. When that solve raises, \<open>c\<close> is
  among the guards, not in the deletion filter, and active in the model the sweep
  leaves; when it terminates optimally, \<open>c\<close> is in the deletion filter, not among the
  guards, and active; when it terminates otherwise, \<open>c\<close> is in neither list and inactive
  in the model the sweep leaves. The sweep removes and adds no constraint and changes
  nothing of a constraint but the active flag of the members of the filter: a member is
  active afterwards exactly when it is in the deletion filter or among the guards, and
  the two lists hold members of the filter only. After a first solve that does not
  terminate optimally, the phase returns the state the sweep left, with the default
  writer registered and the message printed; the message lists the deletion filter
  under \<^verbatim>\<open>Constraints / bounds in MIS:\<close> and the guards under
  \<^verbatim>\<open>Constraints / bounds in guards for stability:\<close>, one line for each.
\<close>

theorem C1_deletion_sweep_sorts_members:
  assumes "distinct (pre @ c # post)"
    and "deletion_sweep env pre (st0, [], []) = (st, df, gs)"
    and "solve_modified_model env
           (restore_values (st\<lparr>modified_model := set_active c False (modified_model st)\<rparr>)) =
         (r, st1)"
    and "deletion_sweep env (pre @ c # post) (st0, [], []) = (st', deletion_filter, guards)"
  shows "(\<forall>k\<in>set (constraints (modified_model
             (restore_values (st\<lparr>modified_model := set_active c False (modified_model st)\<rparr>)))).
            con_id k = c \<longrightarrow> \<not> con_active k) \<and>
         (r = None \<longrightarrow>
            c \<in> set guards \<and> c \<notin> set deletion_filter \<and>
            (\<forall>k\<in>set (constraints (modified_model st')). con_id k = c \<longrightarrow> con_active k)) \<and>
         (\<forall>results. r = Some results \<and> optimal results \<longrightarrow>
            c \<in> set deletion_filter \<and> c \<notin> set guards \<and>
            (\<forall>k\<in>set (constraints (modified_model st')). con_id k = c \<longrightarrow> con_active k)) \<and>
         (\<forall>results. r = Some results \<and> \<not> optimal results \<longrightarrow>
            c \<notin> set deletion_filter \<and> c \<notin> set guards \<and>
            (\<forall>k\<in>set (constraints (modified_model st')). con_id k = c \<longrightarrow> \<not> con_active k)) \<and>
         constraints (modified_model st) =
           map (\<lambda>k. if con_id k \<in> set pre
                     then k\<lparr>con_active := (con_id k \<in> set df \<or> con_id k \<in> set gs)\<rparr>
                     else k)
               (constraints (modified_model st0)) \<and>
         constraints (modified_model
             (restore_values (st\<lparr>modified_model := set_active c False (modified_model st)\<rparr>))) =
           map (\<lambda>k. if con_id k = c then k\<lparr>con_active := False\<rparr> else k)
               (constraints (modified_model st)) \<and>
         constraints (modified_model st') =
           map (\<lambda>k. if con_id k \<in> set (pre @ c # post)
                     then k\<lparr>con_active := (con_id k \<in> set deletion_filter \<or> con_id k \<in> set guards)\<rparr>
                     else k)
               (constraints (modified_model st0)) \<and>
         set deletion_filter \<subseteq> set (pre @ c # post) \<and>
         set guards \<subseteq> set (pre @ c # post) \<and>
         (\<forall>st_in r0 lines_mis lines_guards.
            solve_modified_model env (deletion_filter_setup (st_in\<lparr>nl_writer := ''nl_v1''\<rparr>)) =
              (r0, st0) \<and>
            check_optimal_termination env r0 = Inr False \<and>
            elastic_filter st_in = pre @ c # post \<and>
            list_all2 (\<lambda>m line. get_results_line m = Inr line) deletion_filter lines_mis \<and>
            list_all2 (\<lambda>m line. get_results_line m = Inr line) guards lines_guards \<longrightarrow>
            deletion_filter_phase env st_in =
              Inr (st'\<lparr>msg := msg st_in @ ''Computed Minimal Intractable System (MIS)!'' @ nl @
                            ''Constraints / bounds in MIS:'' @ nl @ concat lines_mis @
                            ''Constraints / bounds in guards for stability:'' @
                            concat lines_guards,
                      nl_writer := default_nl_writer env,
                      printed := printed st_in @
                        [msg st_in @ ''Computed Minimal Intractable System (MIS)!'' @ nl @
                         ''Constraints / bounds in MIS:'' @ nl @ concat lines_mis @
                         ''Constraints / bounds in guards for stability:'' @
                         concat lines_guards]\<rparr>))"
proof -
  note member = deletion_sweep_member[OF assms]
  from assms(1) have dpre: "distinct pre" by simp
  have at_turn: "constraints (modified_model st) =
           map (\<lambda>k. if con_id k \<in> set pre
                     then k\<lparr>con_active := (con_id k \<in> set df \<or> con_id k \<in> set gs)\<rparr>
                     else k)
               (constraints (modified_model st0))"
    by (rule deletion_sweep_constraints[OF dpre _ assms(2)]) simp
  have tested: "constraints (modified_model
             (restore_values (st\<lparr>modified_model := set_active c False (modified_model st)\<rparr>))) =
           map (\<lambda>k. if con_id k = c then k\<lparr>con_active := False\<rparr> else k)
               (constraints (modified_model st))"
    using restore_values_frame[of "st\<lparr>modified_model := set_active c False (modified_model st)\<rparr>"]
    by (simp add: set_active_constraints)
  have at_end: "constraints (modified_model st') =
           map (\<lambda>k. if con_id k \<in> set (pre @ c # post)
                     then k\<lparr>con_active := (con_id k \<in> set deletion_filter \<or> con_id k \<in> set guards)\<rparr>
                     else k)
               (constraints (modified_model st0))"
    by (rule deletion_sweep_constraints[OF assms(1) _ assms(4)]) simp
  from deletion_sweep_lists[OF assms(4)] have
    lists: "set deletion_filter \<subseteq> set (pre @ c # post)" "set guards \<subseteq> set (pre @ c # post)"
    by simp_all
  have report: "\<forall>st_in r0 lines_mis lines_guards.
            solve_modified_model env (deletion_filter_setup (st_in\<lparr>nl_writer := ''nl_v1''\<rparr>)) =
              (r0, st0) \<and>
            check_optimal_termination env r0 = Inr False \<and>
            elastic_filter st_in = pre @ c # post \<and>
            list_all2 (\<lambda>m line. get_results_line m = Inr line) deletion_filter lines_mis \<and>
            list_all2 (\<lambda>m line. get_results_line m = Inr line) guards lines_guards \<longrightarrow>
            deletion_filter_phase env st_in =
              Inr (st'\<lparr>msg := msg st_in @ ''Computed Minimal Intractable System (MIS)!'' @ nl @
                            ''Constraints / bounds in MIS:'' @ nl @ concat lines_mis @
                            ''Constraints / bounds in guards for stability:'' @
                            concat lines_guards,
                      nl_writer := default_nl_writer env,
                      printed := printed st_in @
                        [msg st_in @ ''Computed Minimal Intractable System (MIS)!'' @ nl @
                         ''Constraints / bounds in MIS:'' @ nl @ concat lines_mis @
                         ''Constraints / bounds in guards for stability:'' @
                         concat lines_guards]\<rparr>)"
  proof (intro allI impI, elim conjE)
    fix st_in r0 lines_mis lines_guards
    assume s: "solve_modified_model env (deletion_filter_setup (st_in\<lparr>nl_writer := ''nl_v1''\<rparr>)) =
              (r0, st0)"
      and o: "check_optimal_termination env r0 = Inr False"
      and e: "elastic_filter st_in = pre @ c # post"
      and l1: "list_all2 (\<lambda>m line. get_results_line m = Inr line) deletion_filter lines_mis"
      and l2: "list_all2 (\<lambda>m line. get_results_line m = Inr line) guards lines_guards"
    from assms(4) e have sw:
      "deletion_sweep env (elastic_filter st_in) (st0, [], []) = (st', deletion_filter, guards)"
      by simp
    show "deletion_filter_phase env st_in =
              Inr (st'\<lparr>msg := msg st_in @ ''Computed Minimal Intractable System (MIS)!'' @ nl @
                            ''Constraints / bounds in MIS:'' @ nl @ concat lines_mis @
                            ''Constraints / bounds in guards for stability:'' @
                            concat lines_guards,
                      nl_writer := default_nl_writer env,
                      printed := printed st_in @
                        [msg st_in @ ''Computed Minimal Intractable System (MIS)!'' @ nl @
                         ''Constraints / bounds in MIS:'' @ nl @ concat lines_mis @
                         ''Constraints / bounds in guards for stability:'' @
                         concat lines_guards]\<rparr>)"
      by (rule deletion_filter_phase_report[OF s o sw l1 l2])
  qed
  from member at_turn tested at_end lists report show ?thesis
    by (intro conjI) (elim conjE, assumption)+
qed

lemma example_presolve:
  "fst (solve_modified_model (example_env None)
          (deletion_filter_setup (phase_start\<lparr>nl_writer := ''nl_v1''\<rparr>))) =
     Some (Results False)"
  by code_simp

lemma example_phase_start:
  "elastic_filter phase_start = [lb_for_x, ub_for_x] \<and> msg phase_start = [] \<and>
   printed phase_start = []"
  by code_simp

lemma example_sweep_start:
  "constraints (modified_model sweep_start) =
     [\<lparr>con_block = ''_variable_bounds'', con_local_name = ''lb_for_x'', con_lower = Some 5,
       con_body = ''x'', con_upper = None, con_equality = False, con_active = True\<rparr>,
      \<lparr>con_block = ''_variable_bounds'', con_local_name = ''ub_for_x'', con_lower = None,
       con_body = ''x'', con_upper = Some 2, con_equality = False, con_active = True\<rparr>]"
  by code_simp

lemma example_lines:
  "get_results_line lb_for_x = Inr (tab @ ''lb of var x'' @ nl) \<and>
   get_results_line ub_for_x = Inr (tab @ ''ub of var x'' @ nl)"
  by (simp add: get_results_line_def lb_for_x_def ub_for_x_def cid_name_def cid_local_name_def)

theorem C1_witness:
  "snd (deletion_sweep (example_env None) [lb_for_x, ub_for_x] (sweep_start, [], [])) =
     ([lb_for_x], [ub_for_x]) \<and>
   constraints (modified_model
     (fst (deletion_sweep (example_env None) [lb_for_x, ub_for_x] (sweep_start, [], [])))) =
     [\<lparr>con_block = ''_variable_bounds'', con_local_name = ''lb_for_x'', con_lower = Some 5,
       con_body = ''x'', con_upper = None, con_equality = False, con_active = True\<rparr>,
      \<lparr>con_block = ''_variable_bounds'', con_local_name = ''ub_for_x'', con_lower = None,
       con_body = ''x'', con_upper = Some 2, con_equality = False, con_active = True\<rparr>] \<and>
   printed (final (deletion_filter_phase (example_env None) phase_start)) =
     [''Computed Minimal Intractable System (MIS)!'' @ nl @
      ''Constraints / bounds in MIS:'' @ nl @ tab @ ''lb of var x'' @ nl @
      ''Constraints / bounds in guards for stability:'' @ tab @ ''ub of var x'' @ nl]"
proof -
  have d: "distinct ([lb_for_x] @ ub_for_x # [])"
    by (simp add: lb_for_x_def ub_for_x_def)
  have p: "deletion_sweep (example_env None) [lb_for_x] (sweep_start, [], []) =
             (after_first_test, [lb_for_x], [])"
    using example_first_test by (simp add: prod_eq_iff after_first_test_def)
  have r: "solve_modified_model (example_env None)
          (restore_values
             (after_first_test\<lparr>modified_model :=
                set_active ub_for_x False (modified_model after_first_test)\<rparr>)) =
        (None, snd (solve_modified_model (example_env None)
          (restore_values
             (after_first_test\<lparr>modified_model :=
                set_active ub_for_x False (modified_model after_first_test)\<rparr>))))"
    using example_second_test by (simp add: prod_eq_iff)
  have f: "deletion_sweep (example_env None) ([lb_for_x] @ ub_for_x # []) (sweep_start, [], []) =
             (fst (deletion_sweep (example_env None) [lb_for_x, ub_for_x] (sweep_start, [], [])),
              fst (snd (deletion_sweep (example_env None) [lb_for_x, ub_for_x] (sweep_start, [], []))),
              snd (snd (deletion_sweep (example_env None) [lb_for_x, ub_for_x] (sweep_start, [], []))))"
    by simp
  note sorted = C1_deletion_sweep_sorts_members[OF d p r f]
  from sorted[THEN conjunct2, THEN conjunct1]
  have "ub_for_x \<in> set (snd (snd (deletion_sweep (example_env None) [lb_for_x, ub_for_x]
                                     (sweep_start, [], []))))"
    by simp
  with example_sweep_length have lists:
    "fst (snd (deletion_sweep (example_env None) [lb_for_x, ub_for_x] (sweep_start, [], []))) =
       [lb_for_x]"
    "snd (snd (deletion_sweep (example_env None) [lb_for_x, ub_for_x] (sweep_start, [], []))) =
       [ub_for_x]"
    by (cases "snd (snd (deletion_sweep (example_env None) [lb_for_x, ub_for_x]
                           (sweep_start, [], [])))"; auto)+
  from sorted[THEN conjunct2, THEN conjunct2, THEN conjunct2, THEN conjunct2, THEN conjunct2,
      THEN conjunct2, THEN conjunct1]
  have left: "constraints (modified_model
     (fst (deletion_sweep (example_env None) [lb_for_x, ub_for_x] (sweep_start, [], [])))) =
     [\<lparr>con_block = ''_variable_bounds'', con_local_name = ''lb_for_x'', con_lower = Some 5,
       con_body = ''x'', con_upper = None, con_equality = False, con_active = True\<rparr>,
      \<lparr>con_block = ''_variable_bounds'', con_local_name = ''ub_for_x'', con_lower = None,
       con_body = ''x'', con_upper = Some 2, con_equality = False, con_active = True\<rparr>]"
    unfolding lists example_sweep_start
    by (simp add: con_id_def lb_for_x_def ub_for_x_def)
  have s: "solve_modified_model (example_env None)
             (deletion_filter_setup (phase_start\<lparr>nl_writer := ''nl_v1''\<rparr>)) =
           (Some (Results False), sweep_start)"
    using example_presolve by (simp add: prod_eq_iff sweep_start_def)
  have o: "check_optimal_termination (example_env None) (Some (Results False)) = Inr False"
    by (simp add: check_optimal_termination_def)
  have l1: "list_all2 (\<lambda>m line. get_results_line m = Inr line)
              (fst (snd (deletion_sweep (example_env None) [lb_for_x, ub_for_x]
                           (sweep_start, [], []))))
              [tab @ ''lb of var x'' @ nl]"
    unfolding lists using example_lines by simp
  have l2: "list_all2 (\<lambda>m line. get_results_line m = Inr line)
              (snd (snd (deletion_sweep (example_env None) [lb_for_x, ub_for_x]
                           (sweep_start, [], []))))
              [tab @ ''ub of var x'' @ nl]"
    unfolding lists using example_lines by simp
  from sorted[THEN conjunct2, THEN conjunct2, THEN conjunct2, THEN conjunct2, THEN conjunct2,
      THEN conjunct2, THEN conjunct2, THEN conjunct2, THEN conjunct2, rule_format,
      of phase_start "Some (Results False)" "[tab @ ''lb of var x'' @ nl]"
         "[tab @ ''ub of var x'' @ nl]"]
    s o l1 l2 example_phase_start
  have "printed (final (deletion_filter_phase (example_env None) phase_start)) =
     [''Computed Minimal Intractable System (MIS)!'' @ nl @
      ''Constraints / bounds in MIS:'' @ nl @ tab @ ''lb of var x'' @ nl @
      ''Constraints / bounds in guards for stability:'' @ tab @ ''ub of var x'' @ nl]"
    by (simp add: final_def)
  with lists left show ?thesis
    by (simp add: prod_eq_iff)
qed

text \<open>
  Claim C4. The model the deletion filter solves first is the modified model with
  every slack variable fixed at 0, every objective deactivated and every constraint
  outside the elastic filter deactivated: no slack variable, objective or constraint is
  added or removed, the constraints of the filter and the variables are as they were.
  So every slack variable of it is fixed at 0, none of its objectives is active, and
  none of its constraints outside the elastic filter is active. That model is what the
  solver is called on. When that solve terminates optimally, the phase ends in the
  state that solve left, with nothing changed but the message, to which the line on the
  Minimal Intractable System that could not be determined is added, the writer, and the
  printed text: no member of the filter is tested.
\<close>

theorem C4_optimal_restricted_model_stops:
  "(\<forall>v\<in>set (slacks (modified_model (deletion_filter_setup st))).
      slack_fixed v \<and> slack_value v = 0) \<and>
   (\<forall>obj\<in>set (objectives (modified_model (deletion_filter_setup st))). \<not> snd obj) \<and>
   (\<forall>c\<in>set (constraints (modified_model (deletion_filter_setup st))).
      con_id c \<notin> set (elastic_filter st) \<longrightarrow> \<not> con_active c) \<and>
   (\<forall>results st1.
      solve_modified_model env (deletion_filter_setup (st\<lparr>nl_writer := ''nl_v1''\<rparr>)) =
        (Some results, st1) \<and> optimal results \<longrightarrow>
      deletion_filter_phase env st =
        Inr (st1\<lparr>msg := msg st @ ''Could not determine Minimal Intractable System'' @ nl,
                nl_writer := default_nl_writer env,
                printed := printed st @
                  [msg st @ ''Could not determine Minimal Intractable System'' @ nl]\<rparr>)) \<and>
   slacks (modified_model (deletion_filter_setup st)) =
     map (\<lambda>v. v\<lparr>slack_value := 0, slack_fixed := True\<rparr>) (slacks (modified_model st)) \<and>
   objectives (modified_model (deletion_filter_setup st)) =
     map (\<lambda>obj. (fst obj, False)) (objectives (modified_model st)) \<and>
   constraints (modified_model (deletion_filter_setup st)) =
     map (\<lambda>c. if con_id c \<in> set (elastic_filter st) then c else c\<lparr>con_active := False\<rparr>)
         (constraints (modified_model st)) \<and>
   vars (modified_model (deletion_filter_setup st)) = vars (modified_model st) \<and>
   elastic_filter (deletion_filter_setup st) = elastic_filter st \<and>
   modified_model (deletion_filter_setup (st\<lparr>nl_writer := ''nl_v1''\<rparr>)) =
     modified_model (deletion_filter_setup st) \<and>
   fst (solve_modified_model env (deletion_filter_setup (st\<lparr>nl_writer := ''nl_v1''\<rparr>))) =
     sol_results (fst (solve env (solver_state st) (modified_model (deletion_filter_setup st)))) \<and>
   modified_model
     (snd (solve_modified_model env (deletion_filter_setup (st\<lparr>nl_writer := ''nl_v1''\<rparr>)))) =
     load_solution (fst (solve env (solver_state st) (modified_model (deletion_filter_setup st))))
       (modified_model (deletion_filter_setup st))"
proof (intro conjI allI impI ballI)
  fix v assume "v \<in> set (slacks (modified_model (deletion_filter_setup st)))"
  then show "slack_fixed v" "slack_value v = 0"
    by (auto simp: deletion_filter_setup_def fix0_def)
next
  fix obj assume "obj \<in> set (objectives (modified_model (deletion_filter_setup st)))"
  then show "\<not> snd obj"
    by (auto simp: deletion_filter_setup_def)
next
  fix c assume "c \<in> set (constraints (modified_model (deletion_filter_setup st)))"
    and "con_id c \<notin> set (elastic_filter st)"
  then show "\<not> con_active c"
    by (auto simp: deletion_filter_setup_def con_id_active_update split: if_splits)
next
  fix results st1
  assume a: "solve_modified_model env (deletion_filter_setup (st\<lparr>nl_writer := ''nl_v1''\<rparr>)) =
        (Some results, st1) \<and> optimal results"
  then have s: "solve_modified_model env (deletion_filter_setup (st\<lparr>nl_writer := ''nl_v1''\<rparr>)) =
        (Some results, st1)" and o: "optimal results" by simp_all
  from solve_modified_model_frame[OF s] have
    f: "msg st1 = msg st" "printed st1 = printed st"
    by (simp_all add: deletion_filter_setup_def)
  from s o f show "deletion_filter_phase env st =
        Inr (st1\<lparr>msg := msg st @ ''Could not determine Minimal Intractable System'' @ nl,
                nl_writer := default_nl_writer env,
                printed := printed st @
                  [msg st @ ''Could not determine Minimal Intractable System'' @ nl]\<rparr>)"
    by (simp add: deletion_filter_phase_def check_optimal_termination_def
        restore_writer_and_print_def)
next
  show "slacks (modified_model (deletion_filter_setup st)) =
     map (\<lambda>v. v\<lparr>slack_value := 0, slack_fixed := True\<rparr>) (slacks (modified_model st))"
    by (simp add: deletion_filter_setup_def fix0_def)
next
  show "objectives (modified_model (deletion_filter_setup st)) =
     map (\<lambda>obj. (fst obj, False)) (objectives (modified_model st))"
    by (simp add: deletion_filter_setup_def case_prod_beta)
next
  show "constraints (modified_model (deletion_filter_setup st)) =
     map (\<lambda>c. if con_id c \<in> set (elastic_filter st) then c else c\<lparr>con_active := False\<rparr>)
         (constraints (modified_model st))"
    by (simp add: deletion_filter_setup_def)
next
  show "vars (modified_model (deletion_filter_setup st)) = vars (modified_model st)"
    by (simp add: deletion_filter_setup_def)
next
  show "elastic_filter (deletion_filter_setup st) = elastic_filter st"
    by (simp add: deletion_filter_setup_def)
next
  show "modified_model (deletion_filter_setup (st\<lparr>nl_writer := ''nl_v1''\<rparr>)) =
     modified_model (deletion_filter_setup st)"
    by (simp add: deletion_filter_setup_def)
next
  show "fst (solve_modified_model env (deletion_filter_setup (st\<lparr>nl_writer := ''nl_v1''\<rparr>))) =
     sol_results (fst (solve env (solver_state st) (modified_model (deletion_filter_setup st))))"
    by (simp add: solve_modified_model_def solver_solve_def deletion_filter_setup_def
        case_prod_beta Let_def)
next
  show "modified_model
     (snd (solve_modified_model env (deletion_filter_setup (st\<lparr>nl_writer := ''nl_v1''\<rparr>)))) =
     load_solution (fst (solve env (solver_state st) (modified_model (deletion_filter_setup st))))
       (modified_model (deletion_filter_setup st))"
    by (simp add: solve_modified_model_def solver_solve_def deletion_filter_setup_def
        case_prod_beta Let_def)
qed

lemma example_only_lower:
  "constraints (modified_model only_lower) =
     [\<lparr>con_block = ''_variable_bounds'', con_local_name = ''lb_for_x'', con_lower = Some 5,
       con_body = ''x'', con_upper = None, con_equality = False, con_active = True\<rparr>,
      \<lparr>con_block = ''_variable_bounds'', con_local_name = ''ub_for_x'', con_lower = None,
       con_body = ''x'', con_upper = Some 2, con_equality = False, con_active = True\<rparr>] \<and>
   elastic_filter only_lower = [lb_for_x] \<and> msg only_lower = [] \<and> printed only_lower = []"
  by code_simp

lemma example_only_lower_solve:
  "fst (solve_modified_model (example_env None)
          (deletion_filter_setup (only_lower\<lparr>nl_writer := ''nl_v1''\<rparr>))) = Some (Results True) \<and>
   snd (solver_state (snd (solve_modified_model (example_env None)
          (deletion_filter_setup (only_lower\<lparr>nl_writer := ''nl_v1''\<rparr>))))) = 1"
  by code_simp

theorem C4_witness:
  "printed (final (deletion_filter_phase (example_env None) only_lower)) =
     [''Could not determine Minimal Intractable System'' @ nl] \<and>
   snd (solver_state (final (deletion_filter_phase (example_env None) only_lower))) = 1 \<and>
   constraints (modified_model (deletion_filter_setup only_lower)) =
     [\<lparr>con_block = ''_variable_bounds'', con_local_name = ''lb_for_x'', con_lower = Some 5,
       con_body = ''x'', con_upper = None, con_equality = False, con_active = True\<rparr>,
      \<lparr>con_block = ''_variable_bounds'', con_local_name = ''ub_for_x'', con_lower = None,
       con_body = ''x'', con_upper = Some 2, con_equality = False, con_active = False\<rparr>]"
proof -
  note stops = C4_optimal_restricted_model_stops[of only_lower "example_env None"]
  have s: "solve_modified_model (example_env None)
             (deletion_filter_setup (only_lower\<lparr>nl_writer := ''nl_v1''\<rparr>)) =
           (Some (Results True),
            snd (solve_modified_model (example_env None)
                   (deletion_filter_setup (only_lower\<lparr>nl_writer := ''nl_v1''\<rparr>))))"
    using example_only_lower_solve by (simp add: prod_eq_iff)
  from stops[THEN conjunct2, THEN conjunct2, THEN conjunct2, THEN conjunct1, rule_format,
      of "Results True"
         "snd (solve_modified_model (example_env None)
                 (deletion_filter_setup (only_lower\<lparr>nl_writer := ''nl_v1''\<rparr>)))"]
    s example_only_lower example_only_lower_solve
  have phase: "printed (final (deletion_filter_phase (example_env None) only_lower)) =
     [''Could not determine Minimal Intractable System'' @ nl] \<and>
   snd (solver_state (final (deletion_filter_phase (example_env None) only_lower))) = 1"
    by (simp add: final_def)
  from stops[THEN conjunct2, THEN conjunct2, THEN conjunct2, THEN conjunct2, THEN conjunct2,
      THEN conjunct2, THEN conjunct1] example_only_lower
  have "constraints (modified_model (deletion_filter_setup only_lower)) =
     [\<lparr>con_block = ''_variable_bounds'', con_local_name = ''lb_for_x'', con_lower = Some 5,
       con_body = ''x'', con_upper = None, con_equality = False, con_active = True\<rparr>,
      \<lparr>con_block = ''_variable_bounds'', con_local_name = ''ub_for_x'', con_lower = None,
       con_body = ''x'', con_upper = Some 2, con_equality = False, con_active = False\<rparr>]"
    by (simp add: con_id_def lb_for_x_def)
  with phase show ?thesis by simp
qed

text \<open>
  Claim C7, at a failing input. On the model with the conflicting bounds the relaxation
  puts both bounds into the elastic filter; then the solve of the restricted model
  raises, \<^verbatim>\<open>results\<close> is \<^verbatim>\<open>None\<close>, and \<^verbatim>\<open>pyo.check_optimal_termination(None)\<close> raises in
  its turn. The routine ends there, with the writer \<^verbatim>\<open>nl_v1\<close> registered and not the
  default one.
\<close>

theorem C7_writer_not_restored_after_failure:
  "raised (compute_infeasibility_explanation (example_env None) tolerance_default
             m_conflict ''nl_v2'' failing_script) = Some AttributeError \<and>
   elastic_filter (final (compute_infeasibility_explanation (example_env None) tolerance_default
             m_conflict ''nl_v2'' failing_script)) = [lb_for_x, ub_for_x] \<and>
   nl_writer (final (compute_infeasibility_explanation (example_env None) tolerance_default
             m_conflict ''nl_v2'' failing_script)) = ''nl_v1'' \<and>
   default_nl_writer (example_env None) = ''nl_v2''"
  by code_simp

section \<open>Claims about the relaxation\<close>

text \<open>
  Claim C6. In a scan in which no constraint lookup and no report line raises, the
  slack variables after the scan are the ones before it, with exactly those whose value
  is above the tolerance fixed at 0; a slack variable whose value is the tolerance is
  the same afterwards. The slack variables added to the fixed ones are those above the
  tolerance, the constraints added to the elastic filter are theirs, and the message
  gets one line for each of them, in order, with the constraint and the value. The scan
  then raises when the elastic filter has not grown and returns this state otherwise.
\<close>

theorem C6_scan_records_exactly_slacks_above_tolerance:
  assumes "constraint_generator (format_float env) tolerance (modified_model st)
             (slacks (modified_model st)) ([], msg st, fixed_slacks st, elastic_filter st) =
           Inr (slack_block, tx, fixed, ef)"
  shows "slack_block =
           map (\<lambda>v. if tolerance < slack_value v then v\<lparr>slack_value := 0, slack_fixed := True\<rparr>
                     else v)
               (slacks (modified_model st)) \<and>
         (\<forall>i<length (slacks (modified_model st)).
            slack_value (slacks (modified_model st) ! i) = tolerance \<longrightarrow>
            slack_block ! i = slacks (modified_model st) ! i) \<and>
         set fixed = set (fixed_slacks st) \<union>
           slack_local_name ` {v \<in> set (slacks (modified_model st)). tolerance < slack_value v} \<and>
         set ef = set (elastic_filter st) \<union>
           {con_id c |c v. v \<in> set (slacks (modified_model st)) \<and> tolerance < slack_value v \<and>
                           get_constraint (modified_model st) v = Inr c} \<and>
         (\<exists>lines. tx = msg st @ concat lines \<and>
            list_all2 (\<lambda>v line. \<exists>c. get_constraint (modified_model st) v = Inr c \<and>
                         get_results_with_value_line (format_float env) (con_id c) (slack_value v) =
                           Inr line)
              (filter (\<lambda>v. tolerance < slack_value v) (slacks (modified_model st))) lines) \<and>
         constraint_scan env tolerance st =
           (if length ef = length (elastic_filter st)
            then Inl (Exception (''Found model '' @ model_name (orig_model st) @
                                 '' to be feasible!''))
            else Inr (st\<lparr>modified_model := (modified_model st)\<lparr>slacks := slack_block\<rparr>,
                         msg := tx, fixed_slacks := fixed, elastic_filter := ef\<rparr>))"
proof -
  have s: "slack_block =
           map (\<lambda>v. if tolerance < slack_value v then v\<lparr>slack_value := 0, slack_fixed := True\<rparr>
                     else v)
               (slacks (modified_model st))"
    using constraint_generator_slacks[OF assms] by (simp add: fix0_def)
  have b: "\<forall>i<length (slacks (modified_model st)).
            slack_value (slacks (modified_model st) ! i) = tolerance \<longrightarrow>
            slack_block ! i = slacks (modified_model st) ! i"
    unfolding s by simp
  have scan: "constraint_scan env tolerance st =
           (if length ef = length (elastic_filter st)
            then Inl (Exception (''Found model '' @ model_name (orig_model st) @
                                 '' to be feasible!''))
            else Inr (st\<lparr>modified_model := (modified_model st)\<lparr>slacks := slack_block\<rparr>,
                         msg := tx, fixed_slacks := fixed, elastic_filter := ef\<rparr>))"
    using assms by (simp add: constraint_scan_def)
  from s b scan constraint_generator_fixed_slacks[OF assms]
    constraint_generator_elastic_filter[OF assms] constraint_generator_msg[OF assms]
  show ?thesis by simp
qed

lemma example_scan:
  "constraint_generator (format_float (example_env None)) tolerance_default
     (modified_model scanned) (slacks (modified_model scanned))
     ([], msg scanned, fixed_slacks scanned, elastic_filter scanned) =
   Inr ([\<lparr>slack_local_name = lb_slack, slack_value = 0, slack_fixed = True\<rparr>,
         \<lparr>slack_local_name = ub_slack, slack_value = tolerance_default, slack_fixed = False\<rparr>],
        tab @ ''lb of var x by <float>'' @ nl, [lb_slack], [lb_for_x])"
  by code_simp

theorem C6_witness:
  "constraint_scan (example_env None) tolerance_default scanned =
     Inr (scanned\<lparr>modified_model := (modified_model scanned)
            \<lparr>slacks := [\<lparr>slack_local_name = lb_slack, slack_value = 0, slack_fixed = True\<rparr>,
                        \<lparr>slack_local_name = ub_slack, slack_value = tolerance_default,
                         slack_fixed = False\<rparr>]\<rparr>,
          msg := tab @ ''lb of var x by <float>'' @ nl,
          fixed_slacks := [lb_slack], elastic_filter := [lb_for_x]\<rparr>)"
proof -
  have e: "elastic_filter scanned = []"
    by code_simp
  from C6_scan_records_exactly_slacks_above_tolerance[OF example_scan] e show ?thesis
    by simp
qed

text \<open>
  Claim C2, at a failing input. The model is feasible as given; the first solve of the
  clone terminates optimally, leaves no slack variable above the tolerance and leaves
  \<open>x = 4\<close> in the clone. The first scan then raises
  \<^verbatim>\<open>Found model feasible to be feasible!\<close> out of the routine, after that one solve:
  nothing is printed, and the caller's model still has \<open>x = 1\<close>. The lines that load
  the feasible solution into the caller's model, solve it and print
  \<^verbatim>\<open>A feasible solution was found!\<close> are not reached.
\<close>

theorem C2_feasible_model_raises_before_write_back:
  "(case prepare (example_env None) m_feasible ''nl_v2'' feasible_script of
      Inl e \<Rightarrow> False
    | Inr st0 \<Rightarrow>
        (case solve_modified_model (example_env None) st0 of
           (None, st1) \<Rightarrow> False
         | (Some results, st1) \<Rightarrow>
             optimal results \<and>
             list_all (\<lambda>v. slack_value v \<le> tolerance_default) (slacks (modified_model st1)) \<and>
             map var_value (vars (modified_model st1)) = [Some 4])) \<and>
   raised (compute_infeasibility_explanation (example_env None) tolerance_default
             m_feasible ''nl_v2'' feasible_script) =
     Some (Exception ''Found model feasible to be feasible!'') \<and>
   printed (final (compute_infeasibility_explanation (example_env None) tolerance_default
             m_feasible ''nl_v2'' feasible_script)) = [] \<and>
   orig_model (final (compute_infeasibility_explanation (example_env None) tolerance_default
             m_feasible ''nl_v2'' feasible_script)) = m_feasible \<and>
   map var_value (vars m_feasible) = [Some 1] \<and>
   snd (solver_state (final (compute_infeasibility_explanation (example_env None)
             tolerance_default m_feasible ''nl_v2'' feasible_script))) = 1"
  by code_simp

text \<open>
  Claim C3, at a failing input. None of the three relaxed solves on the model with the
  conflicting bounds terminates optimally, so the elastic filter stays empty and the
  values the solver left in the clone, \<open>x = 7\<close>, are loaded into the caller's model. Its
  solve does not terminate optimally either: the routine prints that no feasible
  solution could be found, and returns with \<open>x = 7\<close> in the caller's model, which had
  \<open>x = 0\<close>.
\<close>

theorem C3_original_overwritten_without_feasible_solution:
  "raised (compute_infeasibility_explanation (example_env None) tolerance_default
             m_conflict ''nl_v2'' unstable_script) = None \<and>
   printed (final (compute_infeasibility_explanation (example_env None) tolerance_default
             m_conflict ''nl_v2'' unstable_script)) =
     [''Could not find a feasible solution with violated constraints or bounds. This model is likely unstable'',
      ''Could not determine Minimal Intractable System'' @ nl] \<and>
   map var_value (vars m_conflict) = [Some 0] \<and>
   map var_value (vars (orig_model (final (compute_infeasibility_explanation (example_env None)
             tolerance_default m_conflict ''nl_v2'' unstable_script)))) = [Some 7]"
  by code_simp

end
